theory Spec2Isabelle
  imports Main "HOL-Library.Multiset"
begin

section \<open>Go strings and slices\<close>

text \<open>
  A Go string is a sequence of bytes; it is modelled as a \<open>string\<close> (a list of 8-bit
  characters). A run-time panic of the Go program is a value of type \<open>panic\<close>, and a
  function that can panic returns \<open>panic + 'a\<close>.
\<close>

datatype panic = SliceBoundsOutOfRange | IndexOutOfRange | NilDereference

definition HasPrefix :: "string \<Rightarrow> string \<Rightarrow> bool" where
  \<comment> \<open>\<open>strings.HasPrefix(s, prefix)\<close>\<close>
  "HasPrefix s p \<longleftrightarrow> length p \<le> length s \<and> take (length p) s = p"

definition HasSuffix :: "string \<Rightarrow> string \<Rightarrow> bool" where
  \<comment> \<open>\<open>strings.HasSuffix(s, suffix)\<close>\<close>
  "HasSuffix s p \<longleftrightarrow> length p \<le> length s \<and> drop (length s - length p) s = p"

fun Split :: "string \<Rightarrow> char \<Rightarrow> string list" where
  \<comment> \<open>\<open>strings.Split(s, sep)\<close> for a separator of one byte: one more piece than
      there are separators in \<open>s\<close>\<close>
  "Split [] sep = [[]]"
| "Split (c # cs) sep =
     (if c = sep then [] # Split cs sep
      else (case Split cs sep of
              w # ws \<Rightarrow> (c # w) # ws
            | [] \<Rightarrow> [[c]]))"

definition sliceFrom :: "'a list \<Rightarrow> int \<Rightarrow> panic + 'a list" where
  \<comment> \<open>the slice expression \<open>xs[n:]\<close>, which panics unless \<open>0 \<le> n \<le> len(xs)\<close>\<close>
  "sliceFrom xs n =
     (if 0 \<le> n \<and> n \<le> int (length xs) then Inr (drop (nat n) xs)
      else Inl SliceBoundsOutOfRange)"

definition index :: "'a list \<Rightarrow> nat \<Rightarrow> panic + 'a" where
  \<comment> \<open>the index expression \<open>xs[i]\<close>, which panics unless \<open>i < len(xs)\<close>\<close>
  "index xs i = (if i < length xs then Inr (xs ! i) else Inl IndexOutOfRange)"

definition toLowerByte :: "char \<Rightarrow> char" where
  \<comment> \<open>an upper-case letter (codes 65 to 90) has bit 5 clear; its lower-case letter is
      32 more, which sets that bit\<close>
  "toLowerByte c =
     (if 65 \<le> (of_char c :: nat) \<and> (of_char c :: nat) \<le> 90
      then (case c of Char b0 b1 b2 b3 b4 b5 b6 b7 \<Rightarrow> Char b0 b1 b2 b3 b4 True b6 b7)
      else c)"

definition ToLower :: "(string \<Rightarrow> string) \<Rightarrow> string \<Rightarrow> string" where
  \<comment> \<open>\<open>strings.ToLower\<close>: in a string of ASCII bytes the letters A to Z are mapped to a
      to z; any other string goes through \<open>strings.Map(unicode.ToLower, s)\<close>, the case
      tables of the Go library, which is the parameter \<open>mapToLower\<close>\<close>
  "ToLower mapToLower s =
     (if list_all (\<lambda>c. (of_char c :: nat) < 128) s then map toLowerByte s
      else mapToLower s)"

definition spaceRunes :: "string list" where
  \<comment> \<open>the UTF-8 encodings of the characters of \<open>unicode.IsSpace\<close>: U+0009 to U+000D,
      U+0020, U+0085, U+00A0, U+1680, U+2000 to U+200A, U+2028, U+2029, U+202F, U+205F,
      U+3000\<close>
  "spaceRunes =
     [[CHR 0x09], [CHR 0x0A], [CHR 0x0B], [CHR 0x0C], [CHR 0x0D], [CHR 0x20],
      [CHR 0xC2, CHR 0x85], [CHR 0xC2, CHR 0xA0],
      [CHR 0xE1, CHR 0x9A, CHR 0x80],
      [CHR 0xE2, CHR 0x80, CHR 0x80], [CHR 0xE2, CHR 0x80, CHR 0x81],
      [CHR 0xE2, CHR 0x80, CHR 0x82], [CHR 0xE2, CHR 0x80, CHR 0x83],
      [CHR 0xE2, CHR 0x80, CHR 0x84], [CHR 0xE2, CHR 0x80, CHR 0x85],
      [CHR 0xE2, CHR 0x80, CHR 0x86], [CHR 0xE2, CHR 0x80, CHR 0x87],
      [CHR 0xE2, CHR 0x80, CHR 0x88], [CHR 0xE2, CHR 0x80, CHR 0x89],
      [CHR 0xE2, CHR 0x80, CHR 0x8A],
      [CHR 0xE2, CHR 0x80, CHR 0xA8], [CHR 0xE2, CHR 0x80, CHR 0xA9],
      [CHR 0xE2, CHR 0x80, CHR 0xAF],
      [CHR 0xE2, CHR 0x81, CHR 0x9F],
      [CHR 0xE3, CHR 0x80, CHR 0x80]]"

fun trimLeading :: "string list \<Rightarrow> string \<Rightarrow> string" where
  \<comment> \<open>\<open>strings.TrimLeftFunc\<close> for a class of characters given by their encodings: while
      the string begins with one of them, that one is dropped (its first byte is \<open>c\<close>,
      the others are the first bytes of \<open>cs\<close>)\<close>
  "trimLeading runes [] = []"
| "trimLeading runes (c # cs) =
     (case find (HasPrefix (c # cs)) runes of
        None \<Rightarrow> c # cs
      | Some w \<Rightarrow> trimLeading runes (drop (length w - 1) cs))"

definition TrimSpace :: "string \<Rightarrow> string" where
  \<comment> \<open>\<open>strings.TrimSpace\<close>, that is \<open>TrimFunc(s, unicode.IsSpace)\<close>: the leading white
      space is removed, then the trailing white space, which is the leading white space
      of the string read backwards\<close>
  "TrimSpace s =
     rev (trimLeading (map rev spaceRunes) (rev (trimLeading spaceRunes s)))"

section \<open>Path normalisation\<close>

text \<open>
  \<open>multiSlashRegexp = regexp.MustCompile("//+")\<close> and its only use,
  \<open>multiSlashRegexp.ReplaceAllString(path, "/")\<close>. The scan goes from left to right; where
  two slashes start at the current position the match is the whole run of slashes there
  (\<open>+\<close> is greedy), it is replaced by \<open>repl\<close>, and the scan goes on behind the run. Any
  other byte is copied.
\<close>

function multiSlashRegexp_ReplaceAllString :: "string \<Rightarrow> string \<Rightarrow> string" where
  "multiSlashRegexp_ReplaceAllString [] repl = []"
| "multiSlashRegexp_ReplaceAllString [a] repl = [a]"
| "multiSlashRegexp_ReplaceAllString (a # b # cs) repl =
     (if a = CHR ''/'' \<and> b = CHR ''/''
      then repl @ multiSlashRegexp_ReplaceAllString (dropWhile (\<lambda>c. c = CHR ''/'') cs) repl
      else a # multiSlashRegexp_ReplaceAllString (b # cs) repl)"
  by pat_completeness auto
termination
  by (relation "measure (\<lambda>(s, repl). length s)")
     (auto simp: le_imp_less_Suc length_dropWhile_le less_Suc_eq_le le_SucI)

definition normalize :: "string \<Rightarrow> string" where
  \<comment> \<open>\<open>path = multiSlashRegexp.ReplaceAllString(path, "/")\<close> in \<open>DefaultURLParser\<close>\<close>
  "normalize path = multiSlashRegexp_ReplaceAllString path ''/''"


section \<open>Data model\<close>

text \<open>
  The structs of the Go packages \<open>types\<close>, \<open>net/url\<close>, \<open>net/http\<close> and \<open>parse\<close>, with the
  fields the parser reads or writes. Several structs share field names (\<open>Path\<close>,
  \<open>Method\<close>, \<open>Type\<close>, ...), so every field carries the name of its struct in front.
  A Go pointer that may be nil is an \<open>option\<close>; so is a map that may be nil.
\<close>

record apiVersion =
  version_Path :: string
  version_SubContext :: bool
  version_SubContextSchema :: string

record schema =
  schema_ID :: string
  schema_PluralName :: string

text \<open>
  The schema registry \<open>*types.Schemas\<close> is an external collaborator. The parser uses two
  of its methods: \<open>Versions()\<close>, the registered versions in registration order, and
  \<open>Schema(version *APIVersion, name string) *Schema\<close>, the lookup of a type name under a
  version.
\<close>

record schemas =
  Versions :: "apiVersion list"
  Schema :: "apiVersion option \<Rightarrow> string \<Rightarrow> schema option"

type_synonym Values = "string \<rightharpoonup> string list"

definition Get :: "Values \<Rightarrow> string \<Rightarrow> string" where
  \<comment> \<open>\<open>url.Values.Get\<close>: the first value stored under the key, or the empty string\<close>
  "Get v key = (case v key of None \<Rightarrow> [] | Some [] \<Rightarrow> [] | Some (x # _) \<Rightarrow> x)"

record url =
  url_Path :: string
  url_Query :: Values

record request =
  req_Method :: string
  req_URL :: url
  req_Header :: Values

datatype errorCode = NotFound | MethodNotAllowed

datatype error = APIError errorCode string | ForeignError string

record ParsedURL =
  parsed_Version :: string
  parsed_Type :: string
  parsed_ID :: string
  parsed_Link :: string
  parsed_Method :: string
  parsed_Action :: string
  parsed_SubContext :: "(string \<rightharpoonup> string) option"
  parsed_SubContextPrefix :: string
  parsed_Query :: Values

definition ParsedURL_zero :: ParsedURL where
  \<comment> \<open>\<open>ParsedURL{}\<close>\<close>
  "ParsedURL_zero =
     \<lparr>parsed_Version = [], parsed_Type = [], parsed_ID = [], parsed_Link = [],
      parsed_Method = [], parsed_Action = [], parsed_SubContext = None,
      parsed_SubContextPrefix = [], parsed_Query = Map.empty\<rparr>"

record urlBuilder =
  builder_apiVersion :: apiVersion
  builder_subContext :: string

definition SetSubContext :: "urlBuilder \<Rightarrow> string \<Rightarrow> urlBuilder" where
  "SetSubContext b subContext = b\<lparr>builder_subContext := subContext\<rparr>"

record apiContext =
  ctx_Method :: string
  ctx_ResponseFormat :: string
  ctx_URLBuilder :: "urlBuilder option"
  ctx_SubContext :: "(string \<rightharpoonup> string) option"
  ctx_Type :: string
  ctx_ID :: string
  ctx_Link :: string
  ctx_Action :: string
  ctx_Query :: Values
  ctx_Version :: "apiVersion option"
  ctx_Schema :: "schema option"
  ctx_Schemas :: schemas

definition NewAPIContext :: "request \<Rightarrow> schemas \<Rightarrow> apiContext" where
  \<comment> \<open>\<open>types.NewAPIContext(req, rw, schemas)\<close>: a fresh context that knows the registry
      and has every other field at its zero value\<close>
  "NewAPIContext req schemas =
     \<lparr>ctx_Method = [], ctx_ResponseFormat = [], ctx_URLBuilder = None,
      ctx_SubContext = None, ctx_Type = [], ctx_ID = [], ctx_Link = [], ctx_Action = [],
      ctx_Query = Map.empty, ctx_Version = None, ctx_Schema = None,
      ctx_Schemas = schemas\<rparr>"

definition APIVersion_zero :: apiVersion where
  \<comment> \<open>\<open>types.APIVersion{}\<close>\<close>
  "APIVersion_zero =
     \<lparr>version_Path = [], version_SubContext = False, version_SubContextSchema = []\<rparr>"

type_synonym 'a sortSlice = "('a \<Rightarrow> 'a \<Rightarrow> bool) \<Rightarrow> 'a list \<Rightarrow> 'a list"

type_synonym URLParser = "schemas \<Rightarrow> url \<Rightarrow> panic + (ParsedURL \<times> error option)"

type_synonym ResolverFunc = "string \<Rightarrow> apiContext \<Rightarrow> apiContext \<times> error option"

text \<open>
  What \<open>Parse\<close> calls outside the file: \<open>IsBrowser\<close> and \<open>ValidateMethod\<close> of the same
  package, \<open>urlbuilder.New\<close> (which returns a builder and an error), the constant
  \<open>builtin.Version\<close> and the case tables of the Go library behind \<open>strings.ToLower\<close>.
  They are parameters of the model. \<open>ValidateMethod\<close> is taken as a check that reads the
  context.
\<close>

record env =
  IsBrowser :: "request \<Rightarrow> bool \<Rightarrow> bool"
  Map_unicode_ToLower :: "string \<Rightarrow> string"
  urlbuilder_New :: "request \<Rightarrow> apiVersion \<Rightarrow> schemas \<Rightarrow> urlBuilder option \<times> error option"
  ValidateMethod :: "apiContext \<Rightarrow> error option"
  builtin_Version :: apiVersion

definition andThen :: "panic + 'a \<Rightarrow> ('a \<Rightarrow> panic + 'b) \<Rightarrow> panic + 'b" where
  \<comment> \<open>a panic ends the computation\<close>
  "andThen m f = (case m of Inl e \<Rightarrow> Inl e | Inr x \<Rightarrow> f x)"

section \<open>The parser\<close>

subsection \<open>\<open>versionsForPath\<close>\<close>

definition longerPath :: "apiVersion \<Rightarrow> apiVersion \<Rightarrow> bool" where
  \<comment> \<open>the \<open>less\<close> function handed to \<open>sort.Slice\<close>\<close>
  "longerPath i j \<longleftrightarrow> length (version_Path i) > length (version_Path j)"

definition versionsForPath :: "apiVersion sortSlice \<Rightarrow> schemas \<Rightarrow> string \<Rightarrow> apiVersion list" where
  \<comment> \<open>\<open>sort.Slice\<close> of the Go library is the parameter \<open>sortSlice\<close>\<close>
  "versionsForPath sortSlice schemas path =
     (let matchedVersion =
            filter (\<lambda>version. HasPrefix path (version_Path version)) (Versions schemas)
      in sortSlice longerPath matchedVersion)"

subsection \<open>\<open>parseVersionAndSubContext\<close>\<close>

datatype probe = Break | Return apiVersion | Exhausted

fun probeVersions ::
  "schemas \<Rightarrow> string list \<Rightarrow> nat \<Rightarrow> apiVersion list \<Rightarrow> panic + probe" where
  \<comment> \<open>the loop \<open>for i, version := range versions\<close>, from index \<open>i\<close> on\<close>
  "probeVersions schemas paths i [] = Inr Exhausted"
| "probeVersions schemas paths i (version # rest) =
     andThen (index paths 1) (\<lambda>name.
       if Schema schemas (Some version) name \<noteq> None
       then (if i = 0 then Inr Break else Inr (Return version))
       else probeVersions schemas paths (Suc i) rest)"

definition parseVersionAndSubContext ::
  "apiVersion sortSlice \<Rightarrow> schemas \<Rightarrow> string \<Rightarrow>
   panic + (apiVersion option \<times> string \<times> string list \<times> (string \<rightharpoonup> string) option)" where
  "parseVersionAndSubContext sortSlice schemas path =
     (let versions = versionsForPath sortSlice schemas path in
      if length versions = 0 then Inr (None, [], [], None)
      else
        andThen (index versions 0) (\<lambda>version.
        let path = (if HasSuffix path ''/'' then take (length path - 1) path else path);
            versionParts = Split (version_Path version) CHR ''/'';
            pathParts = Split path CHR ''/''
        in
        andThen (sliceFrom pathParts (int (length versionParts))) (\<lambda>paths.
        if \<not> version_SubContext version \<or> length versions < 2
        then Inr (Some version, [], paths, None)
        else if length paths < 2
        then
          andThen (index versions 1) (\<lambda>second.
          andThen (sliceFrom pathParts (int (length versionParts) - 1)) (\<lambda>parts.
          Inr (Some second, [], parts, None)))
        else
          andThen (index paths 0) (\<lambda>first.
          let attrs = [version_SubContextSchema version \<mapsto> first] in
          andThen (probeVersions schemas paths 0 versions) (\<lambda>found.
          case found of
            Return candidate \<Rightarrow>
              andThen (sliceFrom paths 1) (\<lambda>parts.
              Inr (Some candidate, [], parts, Some attrs))
          | _ \<Rightarrow>
              andThen (sliceFrom paths 1) (\<lambda>parts.
              Inr (Some version, ''/'' @ first, parts, Some attrs)))))))"

subsection \<open>\<open>safeIndex\<close>, \<open>parseAction\<close>, \<open>parseMethod\<close>, \<open>parseResponseFormat\<close>\<close>

definition safeIndex :: "string list \<Rightarrow> nat \<Rightarrow> string" where
  "safeIndex slice i = (if i \<ge> length slice then [] else slice ! i)"

definition parseAction :: "url \<Rightarrow> string \<times> string" where
  "parseAction u =
     (let action = Get (url_Query u) ''action'' in
      if action = ''remove'' then ([], ''DELETE'') else (action, []))"

definition parseMethod :: "request \<Rightarrow> string" where
  "parseMethod req =
     (let method = Get (url_Query (req_URL req)) ''_method'' in
      if method = [] then req_Method req else method)"

definition allowedFormats :: "string \<rightharpoonup> bool" where
  "allowedFormats = [''html'' \<mapsto> True, ''json'' \<mapsto> True]"

definition parseResponseFormat ::
  "(request \<Rightarrow> bool \<Rightarrow> bool) \<Rightarrow> (string \<Rightarrow> string) \<Rightarrow> request \<Rightarrow> string" where
  "parseResponseFormat isBrowser mapToLower req =
     (let format = Get (url_Query (req_URL req)) ''_format'';
          format = (if format \<noteq> [] then TrimSpace (ToLower mapToLower format) else format)
      in if (case allowedFormats format of Some b \<Rightarrow> b | None \<Rightarrow> False) then format
         else if isBrowser req True then ''html''
         else ''json'')"

subsection \<open>\<open>DefaultURLParser\<close>\<close>

definition DefaultURLParser :: "apiVersion sortSlice \<Rightarrow> URLParser" where
  "DefaultURLParser sortSlice schemas u =
     (let result = ParsedURL_zero;
          path = url_Path u;
          path = normalize path
      in
      andThen (parseVersionAndSubContext sortSlice schemas path)
        (\<lambda>(version, prefix, parts, subContext).
           case version of
             None \<Rightarrow> Inr (result, None)
           | Some version \<Rightarrow>
               (let (action, method) = parseAction u in
                Inr (result\<lparr>parsed_Version := version_Path version,
                            parsed_SubContext := subContext,
                            parsed_SubContextPrefix := prefix,
                            parsed_Action := action,
                            parsed_Method := method,
                            parsed_Query := url_Query u,
                            parsed_Type := safeIndex parts 0,
                            parsed_ID := safeIndex parts 1,
                            parsed_Link := safeIndex parts 2\<rparr>, None))))"


subsection \<open>\<open>DefaultResolver\<close>\<close>

text \<open>
  A resolver receives the context by pointer and returns an error; the model hands the
  context back. \<open>builtin.Version\<close> and \<open>builtin.Schema\<close> are constants of another package
  and are parameters here.
\<close>

definition DefaultResolver :: "apiVersion \<Rightarrow> schema \<Rightarrow> ResolverFunc" where
  "DefaultResolver builtinVersion builtinSchema typeName apiContext =
     (if typeName = [] then (apiContext, None)
      else
        let schema = Schema (ctx_Schemas apiContext) (ctx_Version apiContext) typeName;
            schema =
              (if schema = None \<and>
                  (typeName = schema_ID builtinSchema \<or>
                   typeName = schema_PluralName builtinSchema)
               then Schema (ctx_Schemas apiContext) (Some builtinVersion) typeName
               else schema)
        in if schema = None then (apiContext, None)
           else (apiContext\<lparr>ctx_Schema := schema\<rparr>, None))"

subsection \<open>\<open>Parse\<close>\<close>

definition populateContext :: "env \<Rightarrow> request \<Rightarrow> schemas \<Rightarrow> ParsedURL \<Rightarrow> apiContext" where
  \<comment> \<open>the first part of \<open>Parse\<close>, up to the search for the version: the context as it
      stands when the error of the URL parser is checked\<close>
  "populateContext env req schemas parsedURL =
     (let result = NewAPIContext req schemas;
          result = result\<lparr>ctx_Method := parseMethod req\<rparr>;
          result = result\<lparr>ctx_ResponseFormat :=
                     parseResponseFormat (IsBrowser env) (Map_unicode_ToLower env) req\<rparr>;
          result = result\<lparr>ctx_URLBuilder :=
                     fst (urlbuilder_New env req APIVersion_zero schemas)\<rparr>;
          result = result\<lparr>ctx_SubContext := parsed_SubContext parsedURL\<rparr>;
          result = result\<lparr>ctx_Type := parsed_Type parsedURL\<rparr>;
          result = result\<lparr>ctx_ID := parsed_ID parsedURL\<rparr>;
          result = result\<lparr>ctx_Link := parsed_Link parsedURL\<rparr>;
          result = result\<lparr>ctx_Action := parsed_Action parsedURL\<rparr>;
          result = result\<lparr>ctx_Query := parsed_Query parsedURL\<rparr>;
          result = (if parsed_Method parsedURL \<noteq> []
                    then result\<lparr>ctx_Method := parsed_Method parsedURL\<rparr> else result)
      in result\<lparr>ctx_Version :=
                  find (\<lambda>version. version_Path version = parsed_Version parsedURL)
                    (Versions schemas)\<rparr>)"

definition setSubContextPrefix :: "ParsedURL \<Rightarrow> apiContext \<Rightarrow> panic + apiContext" where
  \<comment> \<open>\<open>if parsedURL.SubContextPrefix != "" { result.URLBuilder.SetSubContext(...) }\<close>\<close>
  "setSubContextPrefix parsedURL result =
     (if parsed_SubContextPrefix parsedURL \<noteq> []
      then (case ctx_URLBuilder result of
              None \<Rightarrow> Inl NilDereference
            | Some b \<Rightarrow>
                Inr (result\<lparr>ctx_URLBuilder :=
                              Some (SetSubContext b (parsed_SubContextPrefix parsedURL))\<rparr>))
      else Inr result)"

text \<open>
  \<open>Parse\<close> returns a context and an error. The URL parser is a pure function of the
  registry and the URL, so the model calls it first and then builds the context in the
  order of the source; a panic of the URL parser is a panic of \<open>Parse\<close>.
\<close>

definition Parse ::
  "env \<Rightarrow> request \<Rightarrow> schemas \<Rightarrow> URLParser \<Rightarrow> ResolverFunc \<Rightarrow>
   panic + (apiContext \<times> error option)" where
  "Parse env req schemas urlParser resolverFunc =
     andThen (urlParser schemas (req_URL req)) (\<lambda>(parsedURL, err).
       let result = populateContext env req schemas parsedURL in
       if err \<noteq> None then Inr (result, err)
       else
         case ctx_Version result of
           None \<Rightarrow>
             (let result = result\<lparr>ctx_Method := ''GET''\<rparr>;
                  result = result\<lparr>ctx_URLBuilder :=
                             fst (urlbuilder_New env req APIVersion_zero (ctx_Schemas result))\<rparr>;
                  result = result\<lparr>ctx_Type := ''apiRoot''\<rparr>;
                  result = result\<lparr>ctx_Schema :=
                             Schema (ctx_Schemas result) (Some (builtin_Version env)) ''apiRoot''\<rparr>
              in Inr (result, None))
         | Some version \<Rightarrow>
             (let (builder, err) = urlbuilder_New env req version (ctx_Schemas result);
                  result = result\<lparr>ctx_URLBuilder := builder\<rparr>
              in
              if err \<noteq> None then Inr (result, err)
              else
                andThen (setSubContextPrefix parsedURL result) (\<lambda>result.
                let (result, err) = resolverFunc (ctx_Type result) result in
                if err \<noteq> None then Inr (result, err)
                else
                  case ctx_Schema result of
                    None \<Rightarrow>
                      (let err = (if ctx_Type result \<noteq> []
                                  then Some (APIError NotFound
                                               (''failed to find schema '' @ ctx_Type result))
                                  else None);
                           result = result\<lparr>ctx_Method := ''GET''\<rparr>;
                           result = result\<lparr>ctx_Type := ''apiRoot''\<rparr>;
                           result = result\<lparr>ctx_Schema :=
                                      Schema (ctx_Schemas result) (Some (builtin_Version env))
                                        ''apiRoot''\<rparr>
                       in case ctx_Version result of
                            None \<Rightarrow> Inl NilDereference
                          | Some version \<Rightarrow>
                              Inr (result\<lparr>ctx_ID := version_Path version\<rparr>, err))
                  | Some schema \<Rightarrow>
                      (let result = result\<lparr>ctx_Type := schema_ID schema\<rparr> in
                       case ValidateMethod env result of
                         Some err \<Rightarrow> Inr (result, Some err)
                       | None \<Rightarrow> Inr (result, None)))))"

definition returnedContext :: "panic + (apiContext \<times> error option) \<Rightarrow> apiContext option" where
  "returnedContext r = (case r of Inl _ \<Rightarrow> None | Inr (result, err) \<Rightarrow> Some result)"

definition returnedError :: "panic + (apiContext \<times> error option) \<Rightarrow> error option" where
  "returnedError r = (case r of Inl _ \<Rightarrow> None | Inr (result, err) \<Rightarrow> err)"

section \<open>Sorting\<close>

text \<open>
  What the Go library promises of \<open>sort.Slice(x, less)\<close>: the slice is rearranged into an
  order in which no element is \<open>less\<close> than an element before it. The library does not
  promise a stable sort.
\<close>

definition sortSlice_contract :: "'a sortSlice \<Rightarrow> ('a \<Rightarrow> 'a \<Rightarrow> bool) \<Rightarrow> bool" where
  "sortSlice_contract sortSlice lt \<longleftrightarrow>
     (\<forall>xs. mset (sortSlice lt xs) = mset xs \<and>
           sorted_wrt (\<lambda>a b. \<not> lt b a) (sortSlice lt xs))"

text \<open>A sorting function that keeps the promise: insertion sort.\<close>

fun insertBefore :: "('a \<Rightarrow> 'a \<Rightarrow> bool) \<Rightarrow> 'a \<Rightarrow> 'a list \<Rightarrow> 'a list" where
  "insertBefore lt x [] = [x]"
| "insertBefore lt x (y # ys) =
     (if lt y x then y # insertBefore lt x ys else x # y # ys)"

definition insertionSort :: "'a sortSlice" where
  "insertionSort lt xs = foldr (insertBefore lt) xs []"

section \<open>Notions of the specification\<close>

definition collapsedAfter :: "char option \<Rightarrow> string \<Rightarrow> string" where
  \<comment> \<open>the characters of \<open>p\<close>, each paired with the character before it (\<open>prev\<close> before
      the first): a slash that directly follows a slash is dropped, every other
      character is kept\<close>
  "collapsedAfter prev p =
     map snd (filter (\<lambda>(before, c). \<not> (before = Some CHR ''/'' \<and> c = CHR ''/''))
                (zip (prev # map Some p) p))"

definition collapsed :: "string \<Rightarrow> string" where
  \<comment> \<open>every run of two or more slashes collapsed to one, no other character altered\<close>
  "collapsed p = collapsedAfter None p"

fun hasDoubleSlash :: "string \<Rightarrow> bool" where
  "hasDoubleSlash (a # b # cs) \<longleftrightarrow> (a = CHR ''/'' \<and> b = CHR ''/'') \<or> hasDoubleSlash (b # cs)"
| "hasDoubleSlash _ \<longleftrightarrow> False"

definition matching :: "schemas \<Rightarrow> string \<Rightarrow> apiVersion list" where
  \<comment> \<open>the subsequence of the registered versions whose path is a prefix of the request
      path, in registry order\<close>
  "matching schemas path =
     filter (\<lambda>version. HasPrefix path (version_Path version)) (Versions schemas)"

definition trimmed :: "string \<Rightarrow> string" where
  \<comment> \<open>the path without a single trailing slash\<close>
  "trimmed path = (if HasSuffix path ''/'' then take (length path - 1) path else path)"

definition remainingAfter :: "apiVersion \<Rightarrow> string \<Rightarrow> panic + string list" where
  \<comment> \<open>the segments of the path after the version's own segment count\<close>
  "remainingAfter version path =
     sliceFrom (Split (trimmed path) CHR ''/'')
       (int (length (Split (version_Path version) CHR ''/'')))"

definition resolves :: "schemas \<Rightarrow> string \<Rightarrow> apiVersion \<Rightarrow> bool" where
  \<comment> \<open>the version resolves the name as a schema\<close>
  "resolves schemas name version \<longleftrightarrow> Schema schemas (Some version) name \<noteq> None"

definition registeredVersion :: "schemas \<Rightarrow> string \<Rightarrow> apiVersion option" where
  \<comment> \<open>the first registered version with the given path\<close>
  "registeredVersion schemas path =
     find (\<lambda>version. version_Path version = path) (Versions schemas)"

definition resolverInput :: "env \<Rightarrow> request \<Rightarrow> schemas \<Rightarrow> ParsedURL \<Rightarrow> urlBuilder \<Rightarrow> apiContext" where
  \<comment> \<open>the context that \<open>Parse\<close> hands to the resolver once the version is found and
      \<open>urlbuilder.New\<close> has returned the builder\<close>
  "resolverInput env req schemas parsedURL builder =
     (populateContext env req schemas parsedURL)
       \<lparr>ctx_URLBuilder :=
          Some (if parsed_SubContextPrefix parsedURL \<noteq> []
                then SetSubContext builder (parsed_SubContextPrefix parsedURL)
                else builder)\<rparr>"

definition whiteSpace :: "string \<Rightarrow> bool" where
  \<comment> \<open>the string consists of white space characters only\<close>
  "whiteSpace s \<longleftrightarrow> (\<exists>ws. set ws \<subseteq> set spaceRunes \<and> s = concat ws)"

definition trimsTo :: "string \<Rightarrow> string \<Rightarrow> bool" where
  \<comment> \<open>\<open>s\<close> is \<open>t\<close> with white space before it and behind it\<close>
  "trimsTo s t \<longleftrightarrow> (\<exists>pre post. whiteSpace pre \<and> whiteSpace post \<and> s = pre @ t @ post)"

definition prefixFree :: "string list \<Rightarrow> bool" where
  \<comment> \<open>a string that begins with one of the encodings begins with no other of them\<close>
  "prefixFree runes \<longleftrightarrow>
     (\<forall>w \<in> set runes. w \<noteq> [] \<and> (\<forall>s. find (HasPrefix (w @ s)) runes = Some w))"




section \<open>Example registries and requests\<close>

definition exV1 :: apiVersion where
  "exV1 = \<lparr>version_Path = ''/v1'', version_SubContext = False,
           version_SubContextSchema = []\<rparr>"

definition exV3 :: apiVersion where
  "exV3 = \<lparr>version_Path = ''/v3'', version_SubContext = False,
           version_SubContextSchema = []\<rparr>"

definition exCluster :: apiVersion where
  "exCluster = \<lparr>version_Path = ''/v3/cluster'', version_SubContext = True,
                version_SubContextSchema = ''cluster''\<rparr>"

definition exMeta :: apiVersion where
  "exMeta = \<lparr>version_Path = ''/meta'', version_SubContext = False,
             version_SubContextSchema = []\<rparr>"

definition exLookup :: "apiVersion option \<Rightarrow> string \<Rightarrow> schema option" where
  \<comment> \<open>\<open>nodes\<close> is a type of \<open>/v3\<close>, \<open>pods\<close> is a type of \<open>/v3/cluster\<close>\<close>
  "exLookup version name =
     (if version = Some exV3 \<and> name = ''nodes''
      then Some \<lparr>schema_ID = ''node'', schema_PluralName = ''nodes''\<rparr>
      else if version = Some exCluster \<and> name = ''pods''
      then Some \<lparr>schema_ID = ''pod'', schema_PluralName = ''pods''\<rparr>
      else None)"

definition exSchemas :: schemas where
  "exSchemas = \<lparr>Versions = [exV1, exV3, exCluster], Schema = exLookup\<rparr>"

definition slashSchemas :: schemas where
  \<comment> \<open>a registry with a version whose path ends with a slash\<close>
  "slashSchemas =
     \<lparr>Versions = [\<lparr>version_Path = ''/v3/'', version_SubContext = False,
                    version_SubContextSchema = []\<rparr>],
      Schema = exLookup\<rparr>"

definition exRemoveQuery :: Values where
  \<comment> \<open>the query \<open>action=remove&_method=PUT\<close>\<close>
  "exRemoveQuery = [''action'' \<mapsto> [''remove''], ''_method'' \<mapsto> [''PUT'']]"

definition exBuilder :: "request \<Rightarrow> apiVersion \<Rightarrow> schemas \<Rightarrow> urlBuilder option \<times> error option" where
  "exBuilder req version schemas =
     (Some \<lparr>builder_apiVersion = version, builder_subContext = []\<rparr>, None)"

definition exValidate :: "apiContext \<Rightarrow> error option" where
  "exValidate result = None"

definition exBuiltinSchema :: schema where
  "exBuiltinSchema = \<lparr>schema_ID = ''schema'', schema_PluralName = ''schemas''\<rparr>"

definition failingParser :: URLParser where
  \<comment> \<open>a URL parser that reports an error\<close>
  "failingParser schemas u = Inr (ParsedURL_zero, Some (ForeignError ''malformed URL''))"

definition exVolumesParsed :: ParsedURL where
  \<comment> \<open>what the default URL parser returns for \<open>/v3/volumes\<close> without a query\<close>
  "exVolumesParsed =
     \<lparr>parsed_Version = ''/v3'', parsed_Type = ''volumes'', parsed_ID = [], parsed_Link = [],
      parsed_Method = [], parsed_Action = [], parsed_SubContext = None,
      parsed_SubContextPrefix = [], parsed_Query = Map.empty\<rparr>"

definition exV3Builder :: urlBuilder where
  "exV3Builder = \<lparr>builder_apiVersion = exV3, builder_subContext = []\<rparr>"

definition clearingResolver :: ResolverFunc where
  \<comment> \<open>a resolver that binds no schema, raises no error and clears the type\<close>
  "clearingResolver typeName apiContext = (apiContext\<lparr>ctx_Type := []\<rparr>, None)"

definition exMapToLower :: "string \<Rightarrow> string" where
  \<comment> \<open>leaves the string as it is, as the case tables do for a string without
      upper-case letters\<close>
  "exMapToLower s = s"

definition anyBrowser :: "request \<Rightarrow> bool \<Rightarrow> bool" where
  "anyBrowser req checkAccepts = True"

definition noBrowser :: "request \<Rightarrow> bool \<Rightarrow> bool" where
  "noBrowser req checkAccepts = False"

definition exRequest :: "string \<Rightarrow> string \<Rightarrow> Values \<Rightarrow> request" where
  "exRequest method path query =
     \<lparr>req_Method = method, req_URL = \<lparr>url_Path = path, url_Query = query\<rparr>,
      req_Header = Map.empty\<rparr>"

definition exEnv :: env where
  "exEnv = \<lparr>IsBrowser = noBrowser, Map_unicode_ToLower = exMapToLower,
            urlbuilder_New = exBuilder, ValidateMethod = exValidate,
            builtin_Version = exMeta\<rparr>"

section \<open>Path normalisation: proofs\<close>

lemma filter_dropWhile_slash:
  "filter (\<lambda>c. c \<noteq> CHR ''/'') (dropWhile (\<lambda>c. c = CHR ''/'') cs) =
   filter (\<lambda>c. c \<noteq> CHR ''/'') cs"
  by (induction cs) auto

lemma replace_filter:
  "filter (\<lambda>c. c \<noteq> CHR ''/'') (multiSlashRegexp_ReplaceAllString p ''/'') =
   filter (\<lambda>c. c \<noteq> CHR ''/'') p"
  by (induction p "''/''" rule: multiSlashRegexp_ReplaceAllString.induct)
     (simp_all add: filter_dropWhile_slash)

lemma replace_Nil: "multiSlashRegexp_ReplaceAllString p ''/'' = [] \<longleftrightarrow> p = []"
  by (induction p "''/''" rule: multiSlashRegexp_ReplaceAllString.induct) simp_all

lemma replace_hd: "p \<noteq> [] \<Longrightarrow> hd (multiSlashRegexp_ReplaceAllString p ''/'') = hd p"
  by (induction p "''/''" rule: multiSlashRegexp_ReplaceAllString.induct) simp_all

lemma hasDoubleSlash_Cons:
  "hasDoubleSlash (a # q) \<longleftrightarrow>
   (q \<noteq> [] \<and> a = CHR ''/'' \<and> hd q = CHR ''/'') \<or> hasDoubleSlash q"
  by (cases q) auto

lemma dropWhile_slash_hd:
  "dropWhile (\<lambda>c. c = CHR ''/'') cs \<noteq> [] \<Longrightarrow>
   hd (dropWhile (\<lambda>c. c = CHR ''/'') cs) \<noteq> CHR ''/''"
  using hd_dropWhile [of "\<lambda>c. c = CHR ''/''" cs] by simp

lemma replace_slash:
  "multiSlashRegexp_ReplaceAllString (CHR ''/'' # CHR ''/'' # cs) ''/'' =
   CHR ''/'' # multiSlashRegexp_ReplaceAllString (dropWhile (\<lambda>c. c = CHR ''/'') cs) ''/''"
  by simp

lemma replace_other:
  "\<not> (a = CHR ''/'' \<and> b = CHR ''/'') \<Longrightarrow>
   multiSlashRegexp_ReplaceAllString (a # b # cs) ''/'' =
   a # multiSlashRegexp_ReplaceAllString (b # cs) ''/''"
  by (cases "a = CHR ''/''") simp_all

lemma replace_no_double: "\<not> hasDoubleSlash (multiSlashRegexp_ReplaceAllString p ''/'')"
proof (induction p "''/''" rule: multiSlashRegexp_ReplaceAllString.induct)
  case 1
  show ?case by simp
next
  case (2 a)
  show ?case by simp
next
  case (3 a b cs)
  show ?case
  proof (cases "a = CHR ''/'' \<and> b = CHR ''/''")
    case True
    let ?r = "dropWhile (\<lambda>c. c = CHR ''/'') cs"
    let ?q = "multiSlashRegexp_ReplaceAllString ?r ''/''"
    from True 3(1) have ih: "\<not> hasDoubleSlash ?q" by blast
    have "?q = [] \<or> hd ?q \<noteq> CHR ''/''"
      using dropWhile_slash_hd [of cs] replace_Nil [of ?r] replace_hd [of ?r] by metis
    with ih have nd: "\<not> hasDoubleSlash (CHR ''/'' # ?q)"
      by (simp only: hasDoubleSlash_Cons) blast
    from True have eq: "a = CHR ''/''" "b = CHR ''/''" by simp_all
    show ?thesis unfolding eq replace_slash by (fact nd)
  next
    case False
    let ?q = "multiSlashRegexp_ReplaceAllString (b # cs) ''/''"
    from False 3(2) have ih: "\<not> hasDoubleSlash ?q" by blast
    have "hd ?q = b"
      using replace_hd [of "b # cs"] by simp
    with ih False have nd: "\<not> hasDoubleSlash (a # ?q)"
      by (simp only: hasDoubleSlash_Cons) blast
    show ?thesis unfolding replace_other [OF False] by (fact nd)
  qed
qed

lemma replace_fixed:
  "\<not> hasDoubleSlash p \<Longrightarrow> multiSlashRegexp_ReplaceAllString p ''/'' = p"
proof (induction p "''/''" rule: multiSlashRegexp_ReplaceAllString.induct)
  case 1
  show ?case by simp
next
  case (2 a)
  show ?case by simp
next
  case (3 a b cs)
  from 3(3) have no: "\<not> (a = CHR ''/'' \<and> b = CHR ''/'')"
    and rest: "\<not> hasDoubleSlash (b # cs)"
    by simp_all
  show ?case unfolding replace_other [OF no] using 3(2) [OF no rest] by simp
qed

lemma collapsedAfter_Nil: "collapsedAfter prev [] = []"
  by (simp add: collapsedAfter_def)

lemma collapsedAfter_Cons:
  "collapsedAfter prev (c # cs) =
     (if prev = Some CHR ''/'' \<and> c = CHR ''/'' then collapsedAfter (Some c) cs
      else c # collapsedAfter (Some c) cs)"
  by (simp add: collapsedAfter_def)

lemma collapsedAfter_dropWhile:
  "collapsedAfter (Some CHR ''/'') (dropWhile (\<lambda>c. c = CHR ''/'') cs) =
   collapsedAfter (Some CHR ''/'') cs"
  by (induction cs) (simp_all add: collapsedAfter_Cons)

lemma collapsedAfter_start:
  "p = [] \<or> hd p \<noteq> CHR ''/'' \<or> prev \<noteq> Some CHR ''/'' \<Longrightarrow>
   collapsedAfter prev p = collapsedAfter None p"
  by (cases p) (auto simp: collapsedAfter_Cons collapsedAfter_Nil)

lemma replace_collapsed: "multiSlashRegexp_ReplaceAllString p ''/'' = collapsedAfter None p"
proof (induction p "''/''" rule: multiSlashRegexp_ReplaceAllString.induct)
  case 1
  show ?case by (simp add: collapsedAfter_Nil)
next
  case (2 a)
  show ?case by (simp add: collapsedAfter_Cons collapsedAfter_Nil)
next
  case (3 a b cs)
  show ?case
  proof (cases "a = CHR ''/'' \<and> b = CHR ''/''")
    case True
    let ?r = "dropWhile (\<lambda>c. c = CHR ''/'') cs"
    from True have eq: "a = CHR ''/''" "b = CHR ''/''" by simp_all
    from True 3(1)
    have "multiSlashRegexp_ReplaceAllString ?r ''/'' = collapsedAfter None ?r" by blast
    also have "\<dots> = collapsedAfter (Some CHR ''/'') ?r"
      using dropWhile_slash_hd [of cs] collapsedAfter_start [of ?r "Some CHR ''/''"] by metis
    also have "\<dots> = collapsedAfter (Some CHR ''/'') cs"
      by (rule collapsedAfter_dropWhile)
    finally
    have "multiSlashRegexp_ReplaceAllString ?r ''/'' = collapsedAfter (Some CHR ''/'') cs" .
    then show ?thesis unfolding eq replace_slash by (simp add: collapsedAfter_Cons)
  next
    case False
    from False 3(2)
    have "multiSlashRegexp_ReplaceAllString (b # cs) ''/'' = collapsedAfter None (b # cs)"
      by blast
    also have "\<dots> = collapsedAfter (Some a) (b # cs)"
    proof (cases "a = CHR ''/''")
      case True
      with False have "hd (b # cs) \<noteq> CHR ''/''" by simp
      then show ?thesis using collapsedAfter_start [of "b # cs" "Some a"] by metis
    next
      case False
      then have "Some a \<noteq> Some CHR ''/''" by simp
      then show ?thesis using collapsedAfter_start [of "b # cs" "Some a"] by metis
    qed
    finally
    have "multiSlashRegexp_ReplaceAllString (b # cs) ''/'' = collapsedAfter (Some a) (b # cs)" .
    then show ?thesis unfolding replace_other [OF False] by (simp add: collapsedAfter_Cons)
  qed
qed

text \<open>
  Claim C10. For every path \<open>p\<close>, normalisation replaces every run of two or more
  slashes by one slash and alters nothing else: the result is \<open>p\<close> without the slashes
  that directly follow a slash, it has no two slashes in a row, and its characters other
  than slashes are those of \<open>p\<close> in the same order. Normalising twice equals normalising
  once.
\<close>

theorem normalize_collapses_runs:
  "normalize p = collapsed p \<and>
   \<not> hasDoubleSlash (normalize p) \<and>
   filter (\<lambda>c. c \<noteq> CHR ''/'') (normalize p) = filter (\<lambda>c. c \<noteq> CHR ''/'') p \<and>
   normalize (normalize p) = normalize p"
  unfolding normalize_def collapsed_def
  using replace_collapsed [of p] replace_no_double [of p] replace_filter [of p]
    replace_fixed [OF replace_no_double [of p]]
  by simp

theorem normalize_collapses_runs_witness:
  "normalize ''/a///b'' = ''/a/b'' \<and> collapsed ''/a///b'' = ''/a/b'' \<and>
   \<not> hasDoubleSlash ''/a/b'' \<and> normalize ''/a/b'' = ''/a/b''"
  using normalize_collapses_runs [of "''/a///b''"]
  by (simp add: normalize_def collapsed_def collapsedAfter_def)


section \<open>Response format: proofs\<close>

lemma spaceRunes_prefixFree: "prefixFree spaceRunes"
  unfolding prefixFree_def spaceRunes_def
  by (simp add: HasPrefix_def)

lemma spaceRunes_rev_prefixFree: "prefixFree (map rev spaceRunes)"
  unfolding prefixFree_def spaceRunes_def
  by (simp add: HasPrefix_def)

lemma trimLeading_rune:
  assumes "prefixFree runes" "w \<in> set runes"
  shows "trimLeading runes (w @ x) = trimLeading runes x"
proof -
  from assms have ne: "w \<noteq> []" and f: "find (HasPrefix (w @ x)) runes = Some w"
    by (simp_all add: prefixFree_def)
  from ne obtain c w' where w: "w = c # w'" by (cases w) auto
  from f show ?thesis unfolding w by simp
qed

lemma trimLeading_concat:
  assumes "prefixFree runes" "set ws \<subseteq> set runes"
  shows "trimLeading runes (concat ws @ x) = trimLeading runes x"
  using assms(2)
  by (induction ws) (simp_all add: trimLeading_rune [OF assms(1)])

lemma trimLeading_stays:
  assumes "t \<noteq> []" "find (HasPrefix t) runes = None"
  shows "trimLeading runes t = t"
  using assms by (cases t) simp_all

lemma trimLeading_split:
  "prefixFree runes \<Longrightarrow> \<exists>ws. set ws \<subseteq> set runes \<and> s = concat ws @ trimLeading runes s"
proof (induction runes s rule: trimLeading.induct)
  case (1 runes)
  have "set [] \<subseteq> set runes \<and> [] = concat [] @ trimLeading runes []" by simp
  then show ?case by blast
next
  case (2 runes c cs)
  show ?case
  proof (cases "find (HasPrefix (c # cs)) runes")
    case None
    then have "set [] \<subseteq> set runes \<and> c # cs = concat [] @ trimLeading runes (c # cs)" by simp
    then show ?thesis by blast
  next
    case (Some w)
    then have p: "HasPrefix (c # cs) w" and mem: "w \<in> set runes"
      by (auto simp: find_Some_iff)
    from p have tk: "take (length w) (c # cs) = w"
      by (simp add: HasPrefix_def)
    from mem "2.prems" have ne: "w \<noteq> []" by (simp add: prefixFree_def)
    from "2.IH" [OF Some "2.prems"] obtain ws
      where ws: "set ws \<subseteq> set runes"
        "drop (length w - 1) cs = concat ws @ trimLeading runes (drop (length w - 1) cs)"
      by blast
    have "c # cs = w @ drop (length w) (c # cs)"
      using tk by (metis append_take_drop_id)
    also have "drop (length w) (c # cs) = drop (length w - 1) cs"
      using ne by (cases w) simp_all
    finally have eq: "c # cs = w @ drop (length w - 1) cs" .
    have tl: "trimLeading runes (c # cs) = trimLeading runes (drop (length w - 1) cs)"
      using Some by simp
    have "c # cs = concat (w # ws) @ trimLeading runes (c # cs)"
      unfolding tl using eq ws(2) by simp
    with ws(1) mem have "set (w # ws) \<subseteq> set runes \<and>
       c # cs = concat (w # ws) @ trimLeading runes (c # cs)" by simp
    then show ?thesis by blast
  qed
qed

lemma rev_runes:
  "set ws \<subseteq> set (map rev runes) \<Longrightarrow> set (map rev (rev ws)) \<subseteq> set runes"
  "set ws \<subseteq> set runes \<Longrightarrow> set (map rev (rev ws)) \<subseteq> set (map rev runes)"
  by auto

lemma TrimSpace_trimsTo:
  assumes ne: "f \<noteq> []"
    and l: "\<And>x. find (HasPrefix (f @ x)) spaceRunes = None"
    and r: "find (HasPrefix (rev f)) (map rev spaceRunes) = None"
  shows "TrimSpace s = f \<longleftrightarrow> trimsTo s f"
proof
  assume t: "TrimSpace s = f"
  let ?a = "trimLeading spaceRunes s"
  let ?b = "trimLeading (map rev spaceRunes) (rev ?a)"
  from trimLeading_split [OF spaceRunes_prefixFree, of s] obtain ws1
    where ws1: "set ws1 \<subseteq> set spaceRunes" "s = concat ws1 @ ?a" by blast
  from trimLeading_split [OF spaceRunes_rev_prefixFree, of "rev ?a"] obtain ws2
    where ws2: "set ws2 \<subseteq> set (map rev spaceRunes)" "rev ?a = concat ws2 @ ?b" by blast
  from t have b: "?b = rev f" by (simp add: TrimSpace_def rev_swap)
  from ws2(2) have "?a = rev (concat ws2 @ rev f)" unfolding b by (simp add: rev_swap)
  then have a: "?a = f @ concat (map rev (rev ws2))" by (simp add: rev_concat)
  have "whiteSpace (concat ws1)" using ws1(1) by (auto simp: whiteSpace_def)
  moreover have "whiteSpace (concat (map rev (rev ws2)))"
    using rev_runes(1) [OF ws2(1)] unfolding whiteSpace_def by blast
  moreover have "s = concat ws1 @ f @ concat (map rev (rev ws2))"
    using ws1(2) a by simp
  ultimately show "trimsTo s f" unfolding trimsTo_def by blast
next
  assume "trimsTo s f"
  then obtain ws1 ws2 where ws1: "set ws1 \<subseteq> set spaceRunes"
    and ws2: "set ws2 \<subseteq> set spaceRunes"
    and s: "s = concat ws1 @ f @ concat ws2"
    by (auto simp: trimsTo_def whiteSpace_def)
  have "trimLeading spaceRunes s = trimLeading spaceRunes (f @ concat ws2)"
    unfolding s by (rule trimLeading_concat [OF spaceRunes_prefixFree ws1])
  also have "\<dots> = f @ concat ws2"
    using ne l [of "concat ws2"] by (intro trimLeading_stays) simp_all
  finally have a: "trimLeading spaceRunes s = f @ concat ws2" .
  have "rev (f @ concat ws2) = concat (map rev (rev ws2)) @ rev f"
    by (simp add: rev_concat)
  then have "trimLeading (map rev spaceRunes) (rev (f @ concat ws2)) =
      trimLeading (map rev spaceRunes) (rev f)"
    using trimLeading_concat [OF spaceRunes_rev_prefixFree rev_runes(2) [OF ws2], of "rev f"]
    by simp
  also have "\<dots> = rev f"
    using ne r by (intro trimLeading_stays) simp_all
  finally show "TrimSpace s = f" by (simp add: TrimSpace_def a)
qed

lemma TrimSpace_html: "TrimSpace s = ''html'' \<longleftrightarrow> trimsTo s ''html''"
  by (rule TrimSpace_trimsTo) (simp_all add: spaceRunes_def HasPrefix_def)

lemma TrimSpace_json: "TrimSpace s = ''json'' \<longleftrightarrow> trimsTo s ''json''"
  by (rule TrimSpace_trimsTo) (simp_all add: spaceRunes_def HasPrefix_def)

lemma TrimSpace_ToLower_Nil: "TrimSpace (ToLower mapToLower []) = []"
  by (simp add: TrimSpace_def ToLower_def)

lemma whiteSpace_Nil: "whiteSpace []"
  unfolding whiteSpace_def by (rule exI [of _ "[]"]) simp

lemma whiteSpace_rune: "w \<in> set spaceRunes \<Longrightarrow> whiteSpace w"
  unfolding whiteSpace_def by (rule exI [of _ "[w]"]) simp

lemma whiteSpace_append: "whiteSpace a \<Longrightarrow> whiteSpace b \<Longrightarrow> whiteSpace (a @ b)"
proof -
  assume "whiteSpace a" "whiteSpace b"
  then obtain xs ys where "set xs \<subseteq> set spaceRunes" "a = concat xs"
    "set ys \<subseteq> set spaceRunes" "b = concat ys"
    by (auto simp: whiteSpace_def)
  then have "set (xs @ ys) \<subseteq> set spaceRunes \<and> a @ b = concat (xs @ ys)" by simp
  then show ?thesis unfolding whiteSpace_def by blast
qed

text \<open>
  Claim C8. Let \<open>low\<close> be the lower-cased \<open>_format\<close> query value. The response format is
  \<open>html\<close> when \<open>low\<close> is \<open>html\<close> with white space around it, and \<open>json\<close> when \<open>low\<close> is
  \<open>json\<close> with white space around it: the trimmed, lower-cased value when that is one
  of the allowed formats. Otherwise it is \<open>html\<close> when \<open>IsBrowser(req, true)\<close> holds (the
  User-Agent is a browser's and the client accepts any content type), and \<open>json\<close> when
  not. In particular \<open>_format=xml\<close> without a browser gives \<open>json\<close>.
\<close>

theorem parseResponseFormat_selects:
  "parseResponseFormat isBrowser mapToLower req =
     (if trimsTo (ToLower mapToLower (Get (url_Query (req_URL req)) ''_format'')) ''html''
      then ''html''
      else if trimsTo (ToLower mapToLower (Get (url_Query (req_URL req)) ''_format'')) ''json''
      then ''json''
      else if isBrowser req True then ''html''
      else ''json'') \<and>
   parseResponseFormat isBrowser mapToLower req =
     (let format = TrimSpace (ToLower mapToLower (Get (url_Query (req_URL req)) ''_format'')) in
      if format = ''html'' \<or> format = ''json'' then format
      else if isBrowser req True then ''html''
      else ''json'') \<and>
   (Get (url_Query (req_URL req)) ''_format'' = ''xml'' \<and> \<not> isBrowser req True \<longrightarrow>
      parseResponseFormat isBrowser mapToLower req = ''json'')"
proof -
  let ?raw = "Get (url_Query (req_URL req)) ''_format''"
  let ?f = "if ?raw \<noteq> [] then TrimSpace (ToLower mapToLower ?raw) else ?raw"
  have f: "?f = TrimSpace (ToLower mapToLower ?raw)"
    using TrimSpace_ToLower_Nil [of mapToLower] by (cases "?raw = []") simp_all
  have allowed: "\<And>x. (case allowedFormats x of Some b \<Rightarrow> b | None \<Rightarrow> False) \<longleftrightarrow>
      x = ''html'' \<or> x = ''json''"
    by (auto simp: allowedFormats_def)
  have xml: "TrimSpace (ToLower mapToLower ''xml'') = ''xml''"
    by (simp add: TrimSpace_def ToLower_def toLowerByte_def spaceRunes_def HasPrefix_def)
  have gen: "parseResponseFormat isBrowser mapToLower req =
     (let format = TrimSpace (ToLower mapToLower ?raw) in
      if format = ''html'' \<or> format = ''json'' then format
      else if isBrowser req True then ''html''
      else ''json'')"
    unfolding parseResponseFormat_def Let_def allowed f ..
  have spec: "parseResponseFormat isBrowser mapToLower req =
     (if trimsTo (ToLower mapToLower ?raw) ''html'' then ''html''
      else if trimsTo (ToLower mapToLower ?raw) ''json'' then ''json''
      else if isBrowser req True then ''html''
      else ''json'')"
    unfolding gen Let_def TrimSpace_html [symmetric] TrimSpace_json [symmetric] by simp
  have part: "?raw = ''xml'' \<and> \<not> isBrowser req True \<longrightarrow>
      parseResponseFormat isBrowser mapToLower req = ''json''"
    unfolding gen by (simp add: xml)
  from spec gen part show ?thesis by blast
qed

theorem parseResponseFormat_selects_witness:
  "trimsTo [CHR 0xC2, CHR 0xA0, CHR ''h'', CHR ''t'', CHR ''m'', CHR ''l''] ''html'' \<and>
   parseResponseFormat noBrowser exMapToLower
     (exRequest ''GET'' ''/v3/nodes''
        [''_format'' \<mapsto> [[CHR 0xC2, CHR 0xA0, CHR ''h'', CHR ''t'', CHR ''m'', CHR ''l'']]]) =
     ''html'' \<and>
   parseResponseFormat anyBrowser exMapToLower
     (exRequest ''GET'' ''/v3/nodes''
        [''_format'' \<mapsto> [[CHR ''j'', CHR ''s'', CHR ''o'', CHR ''n'', CHR 0xC2, CHR 0xA0]]]) =
     ''json'' \<and>
   parseResponseFormat noBrowser exMapToLower
     (exRequest ''GET'' ''/v3/nodes'' [''_format'' \<mapsto> ['' HTML '']]) = ''html'' \<and>
   parseResponseFormat anyBrowser exMapToLower
     (exRequest ''GET'' ''/v3/nodes'' [''_format'' \<mapsto> [''xml'']]) = ''html'' \<and>
   parseResponseFormat noBrowser exMapToLower
     (exRequest ''GET'' ''/v3/nodes'' [''_format'' \<mapsto> [''xml'']]) = ''json''"
proof -
  let ?nbsp = "[CHR 0xC2, CHR 0xA0]"
  have sp: "whiteSpace ?nbsp" "whiteSpace '' ''"
    by (rule whiteSpace_rune, simp add: spaceRunes_def)+
  have a: "trimsTo (?nbsp @ ''html'') ''html''"
    unfolding trimsTo_def
    by (rule exI [of _ ?nbsp], rule exI [of _ "[]"]) (simp add: sp whiteSpace_Nil)
  have b: "trimsTo (''json'' @ ?nbsp) ''json''"
    unfolding trimsTo_def
    by (rule exI [of _ "[]"], rule exI [of _ ?nbsp]) (simp add: sp whiteSpace_Nil)
  have c: "trimsTo '' html '' ''html''"
    unfolding trimsTo_def
    by (rule exI [of _ "'' ''"], rule exI [of _ "'' ''"]) (simp add: sp)
  have nj: "\<not> trimsTo (''json'' @ ?nbsp) ''html''" "\<not> trimsTo ''xml'' ''html''"
    "\<not> trimsTo ''xml'' ''json''"
    unfolding TrimSpace_html [symmetric] TrimSpace_json [symmetric]
    by (simp_all add: TrimSpace_def spaceRunes_def HasPrefix_def)
  have low: "ToLower exMapToLower (?nbsp @ ''html'') = ?nbsp @ ''html''"
    "ToLower exMapToLower (''json'' @ ?nbsp) = ''json'' @ ?nbsp"
    "ToLower exMapToLower '' HTML '' = '' html ''"
    "ToLower exMapToLower ''xml'' = ''xml''"
    by (simp_all add: ToLower_def exMapToLower_def toLowerByte_def)
  show ?thesis
    using parseResponseFormat_selects [of noBrowser exMapToLower
        "exRequest ''GET'' ''/v3/nodes'' [''_format'' \<mapsto> [?nbsp @ ''html'']]"]
      parseResponseFormat_selects [of anyBrowser exMapToLower
        "exRequest ''GET'' ''/v3/nodes'' [''_format'' \<mapsto> [''json'' @ ?nbsp]]"]
      parseResponseFormat_selects [of noBrowser exMapToLower
        "exRequest ''GET'' ''/v3/nodes'' [''_format'' \<mapsto> ['' HTML '']]"]
      parseResponseFormat_selects [of anyBrowser exMapToLower
        "exRequest ''GET'' ''/v3/nodes'' [''_format'' \<mapsto> [''xml'']]"]
      parseResponseFormat_selects [of noBrowser exMapToLower
        "exRequest ''GET'' ''/v3/nodes'' [''_format'' \<mapsto> [''xml'']]"]
      a b c nj low
    by (simp add: exRequest_def Get_def noBrowser_def anyBrowser_def)
qed

section \<open>Sorting: proofs\<close>

lemma mset_insertBefore: "mset (insertBefore lt x ys) = add_mset x (mset ys)"
  by (induction ys) simp_all

lemma mset_insertionSort: "mset (insertionSort lt xs) = mset xs"
  by (induction xs) (simp_all add: insertionSort_def mset_insertBefore)

lemma set_insertBefore: "set (insertBefore lt x ys) = insert x (set ys)"
  using mset_insertBefore [of lt x ys] by (metis set_mset_add_mset_insert set_mset_mset)

lemma sorted_insertBefore:
  "sorted_wrt (\<lambda>a b. \<not> longerPath b a) ys \<Longrightarrow>
   sorted_wrt (\<lambda>a b. \<not> longerPath b a) (insertBefore longerPath x ys)"
  by (induction ys) (auto simp: set_insertBefore longerPath_def)

lemma sorted_insertionSort:
  "sorted_wrt (\<lambda>a b. \<not> longerPath b a) (insertionSort longerPath xs)"
  by (induction xs) (simp_all add: insertionSort_def sorted_insertBefore)

lemma insertionSort_contract: "sortSlice_contract insertionSort longerPath"
  by (simp add: sortSlice_contract_def mset_insertionSort sorted_insertionSort)

lemma versionsForPath_mset:
  "sortSlice_contract sortSlice longerPath \<Longrightarrow>
   mset (versionsForPath sortSlice schemas path) = mset (matching schemas path)"
  by (simp add: sortSlice_contract_def versionsForPath_def matching_def)

lemma versionsForPath_set:
  "sortSlice_contract sortSlice longerPath \<Longrightarrow>
   set (versionsForPath sortSlice schemas path) = set (matching schemas path)"
  using versionsForPath_mset [of sortSlice schemas path] by (metis set_mset_mset)

lemma versionsForPath_sorted:
  "sortSlice_contract sortSlice longerPath \<Longrightarrow>
   sorted_wrt (\<lambda>a b. length (version_Path b) \<le> length (version_Path a))
     (versionsForPath sortSlice schemas path)"
proof -
  assume "sortSlice_contract sortSlice longerPath"
  then have "sorted_wrt (\<lambda>a b. \<not> longerPath b a) (versionsForPath sortSlice schemas path)"
    by (simp add: sortSlice_contract_def versionsForPath_def)
  moreover have "(\<lambda>a b. \<not> longerPath b a) =
      (\<lambda>a b. length (version_Path b) \<le> length (version_Path a))"
    by (auto simp: longerPath_def fun_eq_iff)
  ultimately show ?thesis by simp
qed






section \<open>The sub-context resolver: proofs\<close>

lemma probeVersions_find:
  assumes "2 \<le> length paths" "0 < i"
  shows "probeVersions schemas paths i vs =
     Inr (case find (resolves schemas (paths ! 1)) vs of
            Some candidate \<Rightarrow> Return candidate
          | None \<Rightarrow> Exhausted)"
  using assms
  by (induction vs arbitrary: i) (simp_all add: andThen_def index_def resolves_def)

lemma probeVersions_first:
  assumes "2 \<le> length paths"
  shows "probeVersions schemas paths 0 (v # vs) =
     (if resolves schemas (paths ! 1) v then Inr Break
      else Inr (case find (resolves schemas (paths ! 1)) vs of
            Some candidate \<Rightarrow> Return candidate
          | None \<Rightarrow> Exhausted))"
  using assms probeVersions_find [of paths "Suc 0" schemas vs]
  by (simp add: andThen_def index_def resolves_def)

declare probeVersions.simps [simp del]

lemma parse_nested:
  assumes vs: "versionsForPath sortSlice schemas path = primary # second # rest"
    and sub: "version_SubContext primary"
    and rem: "remainingAfter primary path = Inr remaining"
  shows "parseVersionAndSubContext sortSlice schemas path =
     (if length remaining < 2
      then andThen (sliceFrom (Split (trimmed path) CHR ''/'')
                (int (length (Split (version_Path primary) CHR ''/'')) - 1))
             (\<lambda>parts. Inr (Some second, [], parts, None))
      else
        andThen (probeVersions schemas remaining 0 (primary # second # rest)) (\<lambda>found.
          case found of
            Return candidate \<Rightarrow>
              Inr (Some candidate, [], drop 1 remaining,
                   Some [version_SubContextSchema primary \<mapsto> remaining ! 0])
          | _ \<Rightarrow>
              Inr (Some primary, ''/'' @ remaining ! 0, drop 1 remaining,
                   Some [version_SubContextSchema primary \<mapsto> remaining ! 0])))"
proof -
  define tp where "tp = (if HasSuffix path ''/'' then take (length path - 1) path else path)"
  have t: "trimmed path = tp" by (simp add: trimmed_def tp_def)
  from rem have rem': "sliceFrom (Split tp CHR ''/'')
       (int (length (Split (version_Path primary) CHR ''/''))) = Inr remaining"
    by (simp add: remainingAfter_def t)
  have one: "2 \<le> length remaining \<Longrightarrow> sliceFrom remaining 1 = Inr (drop 1 remaining)"
    by (simp add: sliceFrom_def)
  have i0: "index (primary # second # rest) 0 = Inr primary"
    and i1: "index (primary # second # rest) (Suc 0) = Inr second"
    by (simp_all add: index_def)
  show ?thesis
  proof (cases "length remaining < 2")
    case True
    then show ?thesis
      unfolding parseVersionAndSubContext_def vs Let_def tp_def [symmetric] t
      using sub by (simp add: andThen_def i0 i1 rem')
  next
    case False
    then have zero: "index remaining 0 = Inr (remaining ! 0)"
      by (cases remaining) (simp_all add: index_def)
    from False have "sliceFrom remaining 1 = Inr (drop 1 remaining)" by (rule one [OF leI])
    with False zero show ?thesis
      unfolding parseVersionAndSubContext_def vs Let_def tp_def [symmetric] t
      using sub
      by (simp add: andThen_def rem' i0 i1)
  qed
qed


lemma parse_plain:
  assumes vs: "versionsForPath sortSlice schemas path = primary # rest"
    and rem: "remainingAfter primary path = Inr remaining"
    and plain: "\<not> version_SubContext primary \<or> rest = []"
  shows "parseVersionAndSubContext sortSlice schemas path =
     Inr (Some primary, [], remaining, None)"
proof -
  define tp where "tp = (if HasSuffix path ''/'' then take (length path - 1) path else path)"
  have t: "trimmed path = tp" by (simp add: trimmed_def tp_def)
  from rem have rem': "sliceFrom (Split tp CHR ''/'')
       (int (length (Split (version_Path primary) CHR ''/''))) = Inr remaining"
    by (simp add: remainingAfter_def t)
  have i0: "index (primary # rest) 0 = Inr primary"
    by (simp add: index_def)
  from plain have "\<not> version_SubContext primary \<or> length (primary # rest) < 2"
    by auto
  then show ?thesis
    unfolding parseVersionAndSubContext_def vs Let_def tp_def [symmetric]
    by (simp add: andThen_def i0 rem')
qed

lemma length_Split: "length (Split s c) = Suc (length (filter (\<lambda>x. x = c) s))"
proof (induction s)
  case Nil
  show ?case by simp
next
  case (Cons x xs)
  then have "Split xs c \<noteq> []" by auto
  then obtain w ws where "Split xs c = w # ws" by (cases "Split xs c") auto
  with Cons show ?case by auto
qed

lemma HasPrefix_append: "HasPrefix s p \<longleftrightarrow> (\<exists>r. s = p @ r)"
proof
  assume "HasPrefix s p"
  then have "s = p @ drop (length p) s"
    by (metis HasPrefix_def append_take_drop_id)
  then show "\<exists>r. s = p @ r" ..
next
  assume "\<exists>r. s = p @ r"
  then show "HasPrefix s p" by (auto simp: HasPrefix_def)
qed

lemma HasPrefix_length_Split:
  assumes "HasPrefix s p"
  shows "length (Split p c) \<le> length (Split s c)"
proof -
  from assms obtain r where "s = p @ r" by (auto simp: HasPrefix_append)
  then show ?thesis by (simp add: length_Split)
qed

lemma HasSuffix_slash: "HasSuffix s ''/'' \<longleftrightarrow> s \<noteq> [] \<and> last s = CHR ''/''"
proof (cases "s = []")
  case True
  then show ?thesis by (simp add: HasSuffix_def)
next
  case False
  then have "s = butlast s @ [last s]" by simp
  then have "drop (length s - 1) s = [last s]"
    by (metis append_eq_conv_conj length_butlast)
  with False show ?thesis by (auto simp: HasSuffix_def Suc_leI)
qed

lemma HasPrefix_trimmed:
  assumes pre: "HasPrefix path p" and ns: "\<not> HasSuffix p ''/''"
  shows "HasPrefix (trimmed path) p"
proof (cases "HasSuffix path ''/''")
  case False
  with pre show ?thesis by (simp add: trimmed_def)
next
  case True
  from pre obtain r where r: "path = p @ r" by (auto simp: HasPrefix_append)
  with True ns have "r \<noteq> []" by auto
  with r have "butlast path = p @ butlast r" by (simp add: butlast_append)
  then have "HasPrefix (butlast path) p" by (auto simp: HasPrefix_append)
  with True show ?thesis by (simp add: trimmed_def butlast_conv_take)
qed

lemma remainingAfter_in_bounds:
  assumes "HasPrefix path (version_Path v)" "\<not> HasSuffix (version_Path v) ''/''"
  shows "remainingAfter v path =
     Inr (drop (length (Split (version_Path v) CHR ''/'')) (Split (trimmed path) CHR ''/''))"
  using HasPrefix_length_Split [OF HasPrefix_trimmed [OF assms], of "CHR ''/''"]
  by (simp add: remainingAfter_def sliceFrom_def)

lemma remainingAfter_Inr:
  assumes "remainingAfter v path = Inr remaining"
  shows "length (Split (version_Path v) CHR ''/'') \<le> length (Split (trimmed path) CHR ''/'') \<and>
     remaining = drop (length (Split (version_Path v) CHR ''/'')) (Split (trimmed path) CHR ''/'')"
  using assms by (auto simp: remainingAfter_def sliceFrom_def split: if_splits)

lemma sliceFrom_before:
  assumes "remainingAfter v path = Inr remaining"
  shows "sliceFrom (Split (trimmed path) CHR ''/'')
           (int (length (Split (version_Path v) CHR ''/'')) - 1) =
         Inr (drop (length (Split (version_Path v) CHR ''/'') - 1) (Split (trimmed path) CHR ''/''))"
proof -
  let ?n = "length (Split (version_Path v) CHR ''/'')"
  have pos: "0 < ?n" by (simp add: length_Split)
  then have "nat (int ?n - 1) = ?n - 1" by simp
  with pos remainingAfter_Inr [OF assms] show ?thesis
    by (simp add: sliceFrom_def)
qed


text \<open>
  Claim C1, amended. At least two versions match, the primary (first, longest) one
  supports sub-contexts and at least two segments remain after its own. If the primary
  version itself resolves \<open>remaining[1]\<close> as a schema, the loop is left by \<open>break\<close> and the
  resolver returns the primary version with the sub-context prefix \<open>"/" + remaining[0]\<close>,
  the segments \<open>remaining[1:]\<close> and the attributes
  \<open>{primary.SubContextSchema: remaining[0]}\<close>. Whenever \<open>sort.Slice\<close> keeps its promise,
  no matched version has a longer path than the primary one.
\<close>

theorem primary_resolves_literal_prefix:
  assumes "versionsForPath sortSlice schemas path = primary # second # rest"
    and "version_SubContext primary"
    and "remainingAfter primary path = Inr remaining"
    and "2 \<le> length remaining"
    and "resolves schemas (remaining ! 1) primary"
  shows "parseVersionAndSubContext sortSlice schemas path =
     Inr (Some primary, ''/'' @ remaining ! 0, drop 1 remaining,
          Some [version_SubContextSchema primary \<mapsto> remaining ! 0]) \<and>
     (sortSlice_contract sortSlice longerPath \<longrightarrow>
        (\<forall>v \<in> set (second # rest).
           length (version_Path v) \<le> length (version_Path primary)))"
proof (intro conjI impI)
  from assms(4,5) have "probeVersions schemas remaining 0 (primary # second # rest) = Inr Break"
    by (simp add: probeVersions_first)
  with assms(4) show "parseVersionAndSubContext sortSlice schemas path =
     Inr (Some primary, ''/'' @ remaining ! 0, drop 1 remaining,
          Some [version_SubContextSchema primary \<mapsto> remaining ! 0])"
    unfolding parse_nested [OF assms(1,2,3)] by (simp add: andThen_def)
next
  assume "sortSlice_contract sortSlice longerPath"
  from versionsForPath_sorted [OF this, of schemas path]
  show "\<forall>v \<in> set (second # rest).
           length (version_Path v) \<le> length (version_Path primary)"
    unfolding assms(1) by simp
qed


lemma exSchemas_cluster_versions:
  "HasPrefix path ''/v3/cluster'' \<Longrightarrow>
   versionsForPath insertionSort exSchemas path = [exCluster, exV3]"
proof -
  assume p: "HasPrefix path ''/v3/cluster''"
  then obtain r where "path = ''/v3/cluster'' @ r" by (auto simp: HasPrefix_append)
  then show ?thesis
    by (simp add: versionsForPath_def exSchemas_def exV1_def exV3_def exCluster_def
        HasPrefix_def insertionSort_def longerPath_def)
qed

theorem primary_resolves_literal_prefix_witness:
  "sortSlice_contract insertionSort longerPath \<and>
   versionsForPath insertionSort exSchemas ''/v3/cluster/c-1/pods'' = [exCluster, exV3] \<and>
   length (version_Path exV3) \<le> length (version_Path exCluster) \<and>
   version_SubContext exCluster \<and>
   remainingAfter exCluster ''/v3/cluster/c-1/pods'' = Inr [''c-1'', ''pods''] \<and>
   resolves exSchemas ''pods'' exCluster \<and>
   parseVersionAndSubContext insertionSort exSchemas ''/v3/cluster/c-1/pods'' =
     Inr (Some exCluster, ''/c-1'', [''pods''], Some [''cluster'' \<mapsto> ''c-1''])"
proof -
  have vs: "versionsForPath insertionSort exSchemas ''/v3/cluster/c-1/pods'' = [exCluster, exV3]"
    by (rule exSchemas_cluster_versions) (simp add: HasPrefix_def)
  have sub: "version_SubContext exCluster" by (simp add: exCluster_def)
  have rem: "remainingAfter exCluster ''/v3/cluster/c-1/pods'' = Inr [''c-1'', ''pods'']"
    by (simp add: remainingAfter_def trimmed_def HasSuffix_def sliceFrom_def exCluster_def)
  have res: "resolves exSchemas ([''c-1'', ''pods''] ! 1) exCluster"
    by (simp add: resolves_def exSchemas_def exLookup_def exCluster_def exV3_def)
  show ?thesis
    using primary_resolves_literal_prefix [OF vs sub rem _ res] vs sub rem res
      insertionSort_contract
    by (simp add: exCluster_def exV3_def)
qed

text \<open>
  The claim as stated fails: for \<open>/v3/cluster/c-1/pods\<close>, where the primary version
  \<open>/v3/cluster\<close> resolves \<open>pods\<close>, the resolver does not return an empty prefix with the
  full remaining segments and no attributes.
\<close>

theorem primary_resolves_counterexample:
  "versionsForPath insertionSort exSchemas ''/v3/cluster/c-1/pods'' = [exCluster, exV3] \<and>
   version_SubContext exCluster \<and>
   remainingAfter exCluster ''/v3/cluster/c-1/pods'' = Inr [''c-1'', ''pods''] \<and>
   resolves exSchemas ([''c-1'', ''pods''] ! 1) exCluster \<and>
   parseVersionAndSubContext insertionSort exSchemas ''/v3/cluster/c-1/pods'' \<noteq>
     Inr (Some exCluster, [], [''c-1'', ''pods''], None)"
proof -
  have vs: "versionsForPath insertionSort exSchemas ''/v3/cluster/c-1/pods'' = [exCluster, exV3]"
    by (rule exSchemas_cluster_versions) (simp add: HasPrefix_def)
  have sub: "version_SubContext exCluster" by (simp add: exCluster_def)
  have rem: "remainingAfter exCluster ''/v3/cluster/c-1/pods'' = Inr [''c-1'', ''pods'']"
    by (simp add: remainingAfter_def trimmed_def HasSuffix_def sliceFrom_def exCluster_def)
  have res: "resolves exSchemas ([''c-1'', ''pods''] ! 1) exCluster"
    by (simp add: resolves_def exSchemas_def exLookup_def exCluster_def exV3_def)
  then have "probeVersions exSchemas [''c-1'', ''pods''] 0 [exCluster, exV3] = Inr Break"
    by (simp add: probeVersions_first)
  then have "parseVersionAndSubContext insertionSort exSchemas ''/v3/cluster/c-1/pods'' =
     Inr (Some exCluster, ''/c-1'', [''pods''], Some [''cluster'' \<mapsto> ''c-1''])"
    unfolding parse_nested [OF vs sub rem] by (simp add: andThen_def exCluster_def)
  with vs sub rem res show ?thesis by simp
qed

text \<open>
  Claim C3. At least two versions match, the primary one supports sub-contexts, at
  least two segments remain and the primary version does not resolve \<open>remaining[1]\<close>.
  Then the first of the other matched versions, in their order, that resolves
  \<open>remaining[1]\<close> is returned with an empty prefix, the segments \<open>remaining[1:]\<close> and the
  attributes \<open>{primary.SubContextSchema: remaining[0]}\<close>; if none of them resolves it,
  the primary version is returned with the prefix \<open>"/" + remaining[0]\<close> and the same
  segments and attributes. Whenever \<open>sort.Slice\<close> keeps its promise, the order of the
  matched versions is from the longest path to the shortest.
\<close>

theorem nested_first_resolving_candidate:
  assumes "versionsForPath sortSlice schemas path = primary # second # rest"
    and "version_SubContext primary"
    and "remainingAfter primary path = Inr remaining"
    and "2 \<le> length remaining"
    and "\<not> resolves schemas (remaining ! 1) primary"
  shows "parseVersionAndSubContext sortSlice schemas path =
     (case find (resolves schemas (remaining ! 1)) (second # rest) of
        Some candidate \<Rightarrow>
          Inr (Some candidate, [], drop 1 remaining,
               Some [version_SubContextSchema primary \<mapsto> remaining ! 0])
      | None \<Rightarrow>
          Inr (Some primary, ''/'' @ remaining ! 0, drop 1 remaining,
               Some [version_SubContextSchema primary \<mapsto> remaining ! 0])) \<and>
     (sortSlice_contract sortSlice longerPath \<longrightarrow>
        sorted_wrt (\<lambda>a b. length (version_Path b) \<le> length (version_Path a))
          (primary # second # rest))"
proof (intro conjI impI)
  from assms(4,5)
  have "probeVersions schemas remaining 0 (primary # second # rest) =
     Inr (case find (resolves schemas (remaining ! 1)) (second # rest) of
            Some candidate \<Rightarrow> Return candidate
          | None \<Rightarrow> Exhausted)"
    by (simp only: probeVersions_first if_False)
  with assms(4) show "parseVersionAndSubContext sortSlice schemas path =
     (case find (resolves schemas (remaining ! 1)) (second # rest) of
        Some candidate \<Rightarrow>
          Inr (Some candidate, [], drop 1 remaining,
               Some [version_SubContextSchema primary \<mapsto> remaining ! 0])
      | None \<Rightarrow>
          Inr (Some primary, ''/'' @ remaining ! 0, drop 1 remaining,
               Some [version_SubContextSchema primary \<mapsto> remaining ! 0]))"
    unfolding parse_nested [OF assms(1,2,3)]
    by (simp add: andThen_def split: option.splits)
next
  assume "sortSlice_contract sortSlice longerPath"
  from versionsForPath_sorted [OF this, of schemas path]
  show "sorted_wrt (\<lambda>a b. length (version_Path b) \<le> length (version_Path a))
          (primary # second # rest)"
    unfolding assms(1) .
qed

theorem nested_first_resolving_candidate_witness:
  "sortSlice_contract insertionSort longerPath \<and>
   versionsForPath insertionSort exSchemas ''/v3/cluster/c-1/nodes/n-1'' = [exCluster, exV3] \<and>
   length (version_Path exV3) \<le> length (version_Path exCluster) \<and>
   parseVersionAndSubContext insertionSort exSchemas ''/v3/cluster/c-1/nodes/n-1'' =
     Inr (Some exV3, [], [''nodes'', ''n-1''], Some [''cluster'' \<mapsto> ''c-1'']) \<and>
   parseVersionAndSubContext insertionSort exSchemas ''/v3/cluster/c-1/volumes'' =
     Inr (Some exCluster, ''/c-1'', [''volumes''], Some [''cluster'' \<mapsto> ''c-1''])"
proof -
  have vs: "versionsForPath insertionSort exSchemas ''/v3/cluster/c-1/nodes/n-1'' = [exCluster, exV3]"
    by (rule exSchemas_cluster_versions) (simp add: HasPrefix_def)
  have vs': "versionsForPath insertionSort exSchemas ''/v3/cluster/c-1/volumes'' = [exCluster, exV3]"
    by (rule exSchemas_cluster_versions) (simp add: HasPrefix_def)
  have sub: "version_SubContext exCluster" by (simp add: exCluster_def)
  have rem: "remainingAfter exCluster ''/v3/cluster/c-1/nodes/n-1'' = Inr [''c-1'', ''nodes'', ''n-1'']"
    by (simp add: remainingAfter_def trimmed_def HasSuffix_def sliceFrom_def exCluster_def)
  have rem': "remainingAfter exCluster ''/v3/cluster/c-1/volumes'' = Inr [''c-1'', ''volumes'']"
    by (simp add: remainingAfter_def trimmed_def HasSuffix_def sliceFrom_def exCluster_def)
  have res: "\<not> resolves exSchemas ([''c-1'', ''nodes'', ''n-1''] ! 1) exCluster"
    by (simp add: resolves_def exSchemas_def exLookup_def exCluster_def exV3_def)
  have res': "\<not> resolves exSchemas ([''c-1'', ''volumes''] ! 1) exCluster"
    by (simp add: resolves_def exSchemas_def exLookup_def exCluster_def exV3_def)
  show ?thesis
    using nested_first_resolving_candidate [OF vs sub rem _ res]
      nested_first_resolving_candidate [OF vs' sub rem' _ res']
      insertionSort_contract vs
    by (simp add: resolves_def exSchemas_def exLookup_def exCluster_def exV3_def)
qed


text \<open>
  Claim C2, amended. At least two versions match, the primary one supports
  sub-contexts, and the segments that remain after the primary version's own segment
  count exist and are fewer than two. Then the resolver returns the second matched
  version with an empty prefix, no attributes, and the segments of the request path
  from the position of the primary version's last segment on. Where the primary
  version's segments are the first segments of the request path, that is the last
  segment of the primary version's path followed by everything after it. Whenever
  \<open>sort.Slice\<close> keeps its promise, the matched versions are in descending order of path
  length, so the second one is the second-longest.
\<close>

theorem short_remaining_second_version:
  assumes "versionsForPath sortSlice schemas path = primary # second # rest"
    and "version_SubContext primary"
    and "remainingAfter primary path = Inr remaining"
    and "length remaining < 2"
  shows "parseVersionAndSubContext sortSlice schemas path =
     Inr (Some second, [],
          drop (length (Split (version_Path primary) CHR ''/'') - 1)
            (Split (trimmed path) CHR ''/''),
          None) \<and>
     (take (length (Split (version_Path primary) CHR ''/'')) (Split (trimmed path) CHR ''/'') =
        Split (version_Path primary) CHR ''/'' \<longrightarrow>
      drop (length (Split (version_Path primary) CHR ''/'') - 1)
        (Split (trimmed path) CHR ''/'') =
      last (Split (version_Path primary) CHR ''/'') # remaining) \<and>
     (sortSlice_contract sortSlice longerPath \<longrightarrow>
        sorted_wrt (\<lambda>a b. length (version_Path b) \<le> length (version_Path a))
          (primary # second # rest))"
proof (intro conjI impI)
  assume "sortSlice_contract sortSlice longerPath"
  from versionsForPath_sorted [OF this, of schemas path]
  show "sorted_wrt (\<lambda>a b. length (version_Path b) \<le> length (version_Path a))
          (primary # second # rest)"
    unfolding assms(1) .
next
  show "parseVersionAndSubContext sortSlice schemas path =
     Inr (Some second, [],
          drop (length (Split (version_Path primary) CHR ''/'') - 1)
            (Split (trimmed path) CHR ''/''),
          None)"
    unfolding parse_nested [OF assms(1,2,3)]
    using assms(4) by (simp add: andThen_def sliceFrom_before [OF assms(3)])
next
  let ?vp = "Split (version_Path primary) CHR ''/''"
  let ?pp = "Split (trimmed path) CHR ''/''"
  assume aligned: "take (length ?vp) ?pp = ?vp"
  have pos: "0 < length ?vp" by (simp add: length_Split)
  from remainingAfter_Inr [OF assms(3)]
  have le: "length ?vp \<le> length ?pp" and rem: "remaining = drop (length ?vp) ?pp"
    by simp_all
  from pos le have lt: "length ?vp - 1 < length ?pp" by linarith
  from pos have suc: "Suc (length ?vp - 1) = length ?vp" by simp
  have "?pp ! (length ?vp - 1) = take (length ?vp) ?pp ! (length ?vp - 1)"
    using pos by simp
  also have "\<dots> = last ?vp"
    unfolding aligned using pos by (simp add: last_conv_nth)
  finally have nth: "?pp ! (length ?vp - 1) = last ?vp" .
  have "drop (length ?vp - 1) ?pp = ?pp ! (length ?vp - 1) # drop (Suc (length ?vp - 1)) ?pp"
    using lt by (rule Cons_nth_drop_Suc [symmetric])
  then show "drop (length ?vp - 1) ?pp = last ?vp # remaining"
    by (simp only: nth suc rem)
qed

theorem short_remaining_second_version_witness:
  "sortSlice_contract insertionSort longerPath \<and>
   versionsForPath insertionSort exSchemas ''/v3/cluster/foo'' = [exCluster, exV3] \<and>
   length (version_Path exV3) \<le> length (version_Path exCluster) \<and>
   version_SubContext exCluster \<and>
   remainingAfter exCluster ''/v3/cluster/foo'' = Inr [''foo''] \<and>
   parseVersionAndSubContext insertionSort exSchemas ''/v3/cluster/foo'' =
     Inr (Some exV3, [], [''cluster'', ''foo''], None) \<and>
   last (Split (version_Path exCluster) CHR ''/'') # [''foo''] = [''cluster'', ''foo'']"
proof -
  have vs: "versionsForPath insertionSort exSchemas ''/v3/cluster/foo'' = [exCluster, exV3]"
    by (rule exSchemas_cluster_versions) (simp add: HasPrefix_def)
  have sub: "version_SubContext exCluster" by (simp add: exCluster_def)
  have rem: "remainingAfter exCluster ''/v3/cluster/foo'' = Inr [''foo'']"
    by (simp add: remainingAfter_def trimmed_def HasSuffix_def sliceFrom_def exCluster_def)
  show ?thesis
    using short_remaining_second_version [OF vs sub rem] vs sub rem insertionSort_contract
    by (simp add: exCluster_def exV3_def trimmed_def HasSuffix_def)
qed

text \<open>
  The claim as stated fails: \<open>/v3/cluster\<close> is a string prefix of \<open>/v3/clusters\<close>, no
  segment remains, and the segments returned begin with \<open>clusters\<close>, a segment of the
  request path, not with \<open>cluster\<close>, the last segment of the primary version's path.
\<close>

theorem short_remaining_counterexample:
  "versionsForPath insertionSort exSchemas ''/v3/clusters'' = [exCluster, exV3] \<and>
   version_SubContext exCluster \<and>
   remainingAfter exCluster ''/v3/clusters'' = Inr [] \<and>
   last (Split (version_Path exCluster) CHR ''/'') = ''cluster'' \<and>
   parseVersionAndSubContext insertionSort exSchemas ''/v3/clusters'' =
     Inr (Some exV3, [], [''clusters''], None) \<and>
   parseVersionAndSubContext insertionSort exSchemas ''/v3/clusters'' \<noteq>
     Inr (Some exV3, [], last (Split (version_Path exCluster) CHR ''/'') # [], None)"
proof -
  have vs: "versionsForPath insertionSort exSchemas ''/v3/clusters'' = [exCluster, exV3]"
    by (rule exSchemas_cluster_versions) (simp add: HasPrefix_def)
  have sub: "version_SubContext exCluster" by (simp add: exCluster_def)
  have rem: "remainingAfter exCluster ''/v3/clusters'' = Inr []"
    by (simp add: remainingAfter_def trimmed_def HasSuffix_def sliceFrom_def exCluster_def)
  have "parseVersionAndSubContext insertionSort exSchemas ''/v3/clusters'' =
     Inr (Some exV3, [], [''clusters''], None)"
    unfolding parse_nested [OF vs sub rem]
    by (simp add: andThen_def sliceFrom_before [OF rem])
       (simp add: exCluster_def trimmed_def HasSuffix_def)
  with vs sub rem show ?thesis by (simp add: exCluster_def)
qed

text \<open>
  Claim C9. In a registry where no version's path ends with a slash, and whenever
  \<open>sort.Slice\<close> keeps its promise, \<open>parseVersionAndSubContext\<close> does not panic on any
  path: every slice and index expression of the model is checked, and the function
  returns a result. In particular the slice of the path segments past the primary
  version's own segment count is in bounds.
\<close>

theorem parseVersionAndSubContext_in_bounds:
  assumes "sortSlice_contract sortSlice longerPath"
    and "\<forall>v \<in> set (Versions schemas). \<not> HasSuffix (version_Path v) ''/''"
  shows "(\<exists>result. parseVersionAndSubContext sortSlice schemas path = Inr result) \<and>
     (\<forall>primary rest. versionsForPath sortSlice schemas path = primary # rest \<longrightarrow>
        (\<exists>remaining. remainingAfter primary path = Inr remaining))"
proof -
  have bounds: "\<exists>remaining. remainingAfter primary path = Inr remaining"
    if "versionsForPath sortSlice schemas path = primary # rest" for primary rest
  proof -
    from that have "primary \<in> set (versionsForPath sortSlice schemas path)" by simp
    then have "primary \<in> set (matching schemas path)"
      using versionsForPath_set [OF assms(1), of schemas path] by simp
    then have "HasPrefix path (version_Path primary)"
      and "\<not> HasSuffix (version_Path primary) ''/''"
      using assms(2) by (simp_all add: matching_def)
    from remainingAfter_in_bounds [OF this] show ?thesis by blast
  qed
  have "\<exists>result. parseVersionAndSubContext sortSlice schemas path = Inr result"
  proof (cases "versionsForPath sortSlice schemas path")
    case Nil
    then show ?thesis by (simp add: parseVersionAndSubContext_def)
  next
    case (Cons primary rest)
    from bounds [OF Cons] obtain remaining
      where rem: "remainingAfter primary path = Inr remaining" ..
    show ?thesis
    proof (cases "\<not> version_SubContext primary \<or> rest = []")
      case True
      from parse_plain [OF Cons rem True] show ?thesis by blast
    next
      case False
      then have sub: "version_SubContext primary" by simp
      from False obtain second rest' where rest: "rest = second # rest'"
        by (cases rest) auto
      note vs = Cons [unfolded rest]
      show ?thesis
      proof (cases "length remaining < 2")
        case True
        then show ?thesis
          unfolding parse_nested [OF vs sub rem]
          by (simp add: andThen_def sliceFrom_before [OF rem])
      next
        case False
        then have two: "2 \<le> length remaining" by simp
        show ?thesis
          unfolding parse_nested [OF vs sub rem]
          using False
          by (simp add: andThen_def probeVersions_first [OF two]
              split: option.splits probe.splits)
      qed
    qed
  qed
  with bounds show ?thesis by blast
qed

theorem parseVersionAndSubContext_in_bounds_witness:
  "sortSlice_contract insertionSort longerPath \<and>
   list_all (\<lambda>v. \<not> HasSuffix (version_Path v) ''/'') (Versions exSchemas) \<and>
   (\<exists>result. parseVersionAndSubContext insertionSort exSchemas ''/v3/cluster/'' = Inr result) \<and>
   (\<exists>remaining. remainingAfter exCluster ''/v3/cluster/'' = Inr remaining)"
proof -
  have ns: "\<forall>v \<in> set (Versions exSchemas). \<not> HasSuffix (version_Path v) ''/''"
    by (simp add: exSchemas_def exV1_def exV3_def exCluster_def HasSuffix_def)
  have vs: "versionsForPath insertionSort exSchemas ''/v3/cluster/'' = [exCluster, exV3]"
    by (rule exSchemas_cluster_versions) (simp add: HasPrefix_def)
  from parseVersionAndSubContext_in_bounds [OF insertionSort_contract ns, of "''/v3/cluster/''"]
    insertionSort_contract ns vs
  show ?thesis by (simp add: list_all_iff)
qed


text \<open>
  The hypothesis on the registry is needed: with a version \<open>/v3/\<close> the request path
  \<open>/v3/\<close> loses its trailing slash and has fewer segments than the version.
\<close>

lemma parseVersionAndSubContext_panics:
  "parseVersionAndSubContext insertionSort slashSchemas ''/v3/'' = Inl SliceBoundsOutOfRange"
  by (simp add: parseVersionAndSubContext_def versionsForPath_def slashSchemas_def
      insertionSort_def HasPrefix_def HasSuffix_def index_def sliceFrom_def andThen_def)


section \<open>The request resolver: proofs\<close>

lemma populateContext_fields:
  "ctx_Version (populateContext env req schemas parsedURL) =
     registeredVersion schemas (parsed_Version parsedURL)"
  "ctx_Schemas (populateContext env req schemas parsedURL) = schemas"
  "ctx_Schema (populateContext env req schemas parsedURL) = None"
  "ctx_Type (populateContext env req schemas parsedURL) = parsed_Type parsedURL"
  "ctx_Action (populateContext env req schemas parsedURL) = parsed_Action parsedURL"
  "ctx_Method (populateContext env req schemas parsedURL) =
     (if parsed_Method parsedURL \<noteq> [] then parsed_Method parsedURL else parseMethod req)"
  by (simp_all add: populateContext_def registeredVersion_def NewAPIContext_def Let_def)

lemma resolverInput_fields:
  "ctx_Version (resolverInput env req schemas parsedURL builder) =
     registeredVersion schemas (parsed_Version parsedURL)"
  "ctx_Schemas (resolverInput env req schemas parsedURL builder) = schemas"
  "ctx_Schema (resolverInput env req schemas parsedURL builder) = None"
  "ctx_Type (resolverInput env req schemas parsedURL builder) = parsed_Type parsedURL"
  "ctx_Action (resolverInput env req schemas parsedURL builder) = parsed_Action parsedURL"
  "ctx_Method (resolverInput env req schemas parsedURL builder) =
     (if parsed_Method parsedURL \<noteq> [] then parsed_Method parsedURL else parseMethod req)"
  by (simp_all add: resolverInput_def populateContext_fields)

lemma Parse_parser_error:
  assumes "urlParser schemas (req_URL req) = Inr (parsedURL, Some e)"
  shows "Parse env req schemas urlParser resolverFunc =
     Inr (populateContext env req schemas parsedURL, Some e)"
  using assms by (simp add: Parse_def andThen_def)

lemma Parse_no_version:
  assumes "urlParser schemas (req_URL req) = Inr (parsedURL, None)"
    and "registeredVersion schemas (parsed_Version parsedURL) = None"
  shows "Parse env req schemas urlParser resolverFunc =
     Inr ((populateContext env req schemas parsedURL)
            \<lparr>ctx_Method := ''GET'',
             ctx_URLBuilder := fst (urlbuilder_New env req APIVersion_zero schemas),
             ctx_Type := ''apiRoot'',
             ctx_Schema := Schema schemas (Some (builtin_Version env)) ''apiRoot''\<rparr>, None)"
  using assms by (simp add: Parse_def andThen_def populateContext_fields Let_def)

lemma Parse_builder_error:
  assumes "urlParser schemas (req_URL req) = Inr (parsedURL, None)"
    and "registeredVersion schemas (parsed_Version parsedURL) = Some version"
    and "urlbuilder_New env req version schemas = (b, Some e)"
  shows "Parse env req schemas urlParser resolverFunc =
     Inr ((populateContext env req schemas parsedURL)\<lparr>ctx_URLBuilder := b\<rparr>, Some e)"
  using assms by (simp add: Parse_def andThen_def populateContext_fields Let_def)

lemma Parse_resolver:
  assumes "urlParser schemas (req_URL req) = Inr (parsedURL, None)"
    and "registeredVersion schemas (parsed_Version parsedURL) = Some version"
    and "urlbuilder_New env req version schemas = (Some builder, None)"
    and "resolverFunc (parsed_Type parsedURL) (resolverInput env req schemas parsedURL builder) =
           (c, rerr)"
  shows "Parse env req schemas urlParser resolverFunc =
     (if rerr \<noteq> None then Inr (c, rerr)
      else case ctx_Schema c of
        None \<Rightarrow>
          (case ctx_Version c of
             None \<Rightarrow> Inl NilDereference
           | Some v \<Rightarrow>
               Inr (c\<lparr>ctx_Method := ''GET'', ctx_Type := ''apiRoot'',
                      ctx_Schema := Schema (ctx_Schemas c) (Some (builtin_Version env)) ''apiRoot'',
                      ctx_ID := version_Path v\<rparr>,
                    if ctx_Type c \<noteq> []
                    then Some (APIError NotFound (''failed to find schema '' @ ctx_Type c))
                    else None))
      | Some schema \<Rightarrow>
          Inr (c\<lparr>ctx_Type := schema_ID schema\<rparr>,
               ValidateMethod env (c\<lparr>ctx_Type := schema_ID schema\<rparr>)))"
proof -
  have set: "setSubContextPrefix parsedURL
      ((populateContext env req schemas parsedURL)\<lparr>ctx_URLBuilder := Some builder\<rparr>) =
      Inr (resolverInput env req schemas parsedURL builder)"
    by (simp add: setSubContextPrefix_def resolverInput_def)
  show ?thesis
    using assms(1,2,3)
    by (simp add: Parse_def andThen_def populateContext_fields Let_def set
        assms(4) [unfolded resolverInput_fields] resolverInput_fields
        split: option.splits)
qed


lemma DefaultURLParser_none:
  assumes "versionsForPath sortSlice schemas (normalize (url_Path u)) = []"
  shows "DefaultURLParser sortSlice schemas u = Inr (ParsedURL_zero, None)"
  using assms
  by (simp add: DefaultURLParser_def parseVersionAndSubContext_def andThen_def)

text \<open>
  Claim C5, amended. When the URL parser reports no error and the version string it
  parsed is the path of no registered version, \<open>Parse\<close> returns with a nil error and a
  context whose type is \<open>apiRoot\<close> and whose method is \<open>GET\<close>.
\<close>

theorem Parse_unversioned_is_apiRoot:
  assumes "urlParser schemas (req_URL req) = Inr (parsedURL, None)"
    and "registeredVersion schemas (parsed_Version parsedURL) = None"
  shows "\<exists>result. Parse env req schemas urlParser resolverFunc = Inr (result, None) \<and>
     ctx_Type result = ''apiRoot'' \<and> ctx_Method result = ''GET''"
  unfolding Parse_no_version [where urlParser = urlParser and schemas = schemas, OF assms]
  by simp

lemma exSchemas_unknown:
  "versionsForPath insertionSort exSchemas (normalize ''/unknown/x'') = []"
  by (simp add: normalize_def versionsForPath_def exSchemas_def exV1_def exV3_def
      exCluster_def HasPrefix_def insertionSort_def)

theorem Parse_unversioned_is_apiRoot_witness:
  "DefaultURLParser insertionSort exSchemas (req_URL (exRequest ''POST'' ''/unknown/x'' Map.empty)) =
     Inr (ParsedURL_zero, None) \<and>
   registeredVersion exSchemas (parsed_Version ParsedURL_zero) = None \<and>
   returnedError
     (Parse exEnv (exRequest ''POST'' ''/unknown/x'' Map.empty) exSchemas
        (DefaultURLParser insertionSort) (DefaultResolver exMeta exBuiltinSchema)) = None \<and>
   map_option ctx_Type (returnedContext
     (Parse exEnv (exRequest ''POST'' ''/unknown/x'' Map.empty) exSchemas
        (DefaultURLParser insertionSort) (DefaultResolver exMeta exBuiltinSchema))) =
     Some ''apiRoot'' \<and>
   map_option ctx_Method (returnedContext
     (Parse exEnv (exRequest ''POST'' ''/unknown/x'' Map.empty) exSchemas
        (DefaultURLParser insertionSort) (DefaultResolver exMeta exBuiltinSchema))) =
     Some ''GET''"
proof -
  let ?req = "exRequest ''POST'' ''/unknown/x'' Map.empty"
  have p: "DefaultURLParser insertionSort exSchemas (req_URL ?req) = Inr (ParsedURL_zero, None)"
    by (rule DefaultURLParser_none) (simp add: exRequest_def exSchemas_unknown)
  have v: "registeredVersion exSchemas (parsed_Version ParsedURL_zero) = None"
    by (simp add: registeredVersion_def ParsedURL_zero_def exSchemas_def exV1_def exV3_def
        exCluster_def)
  from Parse_unversioned_is_apiRoot [where urlParser = "DefaultURLParser insertionSort"
      and schemas = exSchemas and env = exEnv
      and resolverFunc = "DefaultResolver exMeta exBuiltinSchema", OF p v]
  obtain result where
    "Parse exEnv ?req exSchemas (DefaultURLParser insertionSort)
       (DefaultResolver exMeta exBuiltinSchema) = Inr (result, None)"
    "ctx_Type result = ''apiRoot''" "ctx_Method result = ''GET''"
    by blast
  with p v show ?thesis by (simp add: returnedError_def returnedContext_def)
qed

text \<open>
  The claim as stated fails: when the URL parser reports an error, \<open>Parse\<close> returns that
  error before it looks whether a version was found, and the context is not the
  \<open>apiRoot\<close> one.
\<close>

theorem Parse_unversioned_counterexample:
  "registeredVersion exSchemas (parsed_Version ParsedURL_zero) = None \<and>
   returnedError
     (Parse exEnv (exRequest ''POST'' ''/unknown/x'' Map.empty) exSchemas
        failingParser (DefaultResolver exMeta exBuiltinSchema)) =
     Some (ForeignError ''malformed URL'') \<and>
   map_option ctx_Type (returnedContext
     (Parse exEnv (exRequest ''POST'' ''/unknown/x'' Map.empty) exSchemas
        failingParser (DefaultResolver exMeta exBuiltinSchema))) = Some [] \<and>
   map_option ctx_Method (returnedContext
     (Parse exEnv (exRequest ''POST'' ''/unknown/x'' Map.empty) exSchemas
        failingParser (DefaultResolver exMeta exBuiltinSchema))) = Some ''POST''"
proof -
  let ?req = "exRequest ''POST'' ''/unknown/x'' Map.empty"
  have v: "registeredVersion exSchemas (parsed_Version ParsedURL_zero) = None"
    by (simp add: registeredVersion_def ParsedURL_zero_def exSchemas_def exV1_def exV3_def
        exCluster_def)
  have "failingParser exSchemas (req_URL ?req) =
      Inr (ParsedURL_zero, Some (ForeignError ''malformed URL''))"
    by (simp add: failingParser_def)
  from Parse_parser_error [where urlParser = failingParser and schemas = exSchemas
      and env = exEnv and resolverFunc = "DefaultResolver exMeta exBuiltinSchema", OF this] v
  show ?thesis
    by (simp add: returnedError_def returnedContext_def populateContext_fields
        ParsedURL_zero_def parseMethod_def exRequest_def Get_def)
qed


lemma DefaultURLParser_found:
  assumes "parseVersionAndSubContext sortSlice schemas (normalize (url_Path u)) =
             Inr (Some v, prefix, parts, subContext)"
  shows "DefaultURLParser sortSlice schemas u =
     Inr (ParsedURL_zero\<lparr>parsed_Version := version_Path v,
                          parsed_SubContext := subContext,
                          parsed_SubContextPrefix := prefix,
                          parsed_Action := fst (parseAction u),
                          parsed_Method := snd (parseAction u),
                          parsed_Query := url_Query u,
                          parsed_Type := safeIndex parts 0,
                          parsed_ID := safeIndex parts 1,
                          parsed_Link := safeIndex parts 2\<rparr>, None)"
  using assms by (simp add: DefaultURLParser_def andThen_def Let_def split_beta)

lemma parse_found:
  assumes "versionsForPath sortSlice schemas path \<noteq> []"
    and "parseVersionAndSubContext sortSlice schemas path = Inr (ver, prefix, parts, subContext)"
  shows "ver \<noteq> None"
  using assms
  by (auto simp: parseVersionAndSubContext_def andThen_def Let_def
      split: sum.splits if_splits probe.splits)

lemma DefaultURLParser_remove:
  assumes "versionsForPath sortSlice schemas (normalize (url_Path u)) \<noteq> []"
    and "Get (url_Query u) ''action'' = ''remove''"
    and "DefaultURLParser sortSlice schemas u = Inr (parsedURL, perr)"
  shows "parsed_Method parsedURL = ''DELETE'' \<and> parsed_Action parsedURL = [] \<and> perr = None"
proof -
  from assms(3) obtain ver prefix parts subContext
    where p: "parseVersionAndSubContext sortSlice schemas (normalize (url_Path u)) =
      Inr (ver, prefix, parts, subContext)"
    by (cases "parseVersionAndSubContext sortSlice schemas (normalize (url_Path u))")
       (auto simp: DefaultURLParser_def andThen_def Let_def)
  from parse_found [OF assms(1) p] obtain v where "ver = Some v" by auto
  from DefaultURLParser_found [OF p [unfolded this]] assms(2,3)
  show ?thesis by (auto simp: parseAction_def)
qed


text \<open>
  Claim C6, amended. The request matched a registered version, the URL builder was made,
  and the resolver, called with the type of the request, raises no error, binds no
  schema and leaves the type and the version of the context as they are. Then \<open>Parse\<close> returns the
  context downgraded to method \<open>GET\<close>, type \<open>apiRoot\<close> and the path of the matched
  version as ID, together with an error: the \<open>NotFound\<close> error that names the requested
  type when the type is not empty, and no error when it is empty.
\<close>

theorem Parse_schema_not_found:
  assumes "urlParser schemas (req_URL req) = Inr (parsedURL, None)"
    and "registeredVersion schemas (parsed_Version parsedURL) = Some version"
    and "urlbuilder_New env req version schemas = (Some builder, None)"
    and "resolverFunc (parsed_Type parsedURL) (resolverInput env req schemas parsedURL builder) =
           (c, None)"
    and "ctx_Schema c = None"
    and "ctx_Type c = parsed_Type parsedURL"
    and "ctx_Version c = Some version"
  shows "\<exists>result.
     Parse env req schemas urlParser resolverFunc =
       Inr (result,
            if parsed_Type parsedURL \<noteq> []
            then Some (APIError NotFound (''failed to find schema '' @ parsed_Type parsedURL))
            else None) \<and>
     ctx_Method result = ''GET'' \<and> ctx_Type result = ''apiRoot'' \<and>
     ctx_ID result = version_Path version"
  unfolding Parse_resolver [where urlParser = urlParser and schemas = schemas
      and resolverFunc = resolverFunc, OF assms(1,2,3,4)]
  using assms(5,6,7) by simp

lemma exSchemas_v3_versions:
  "versionsForPath insertionSort exSchemas ''/v3/volumes'' = [exV3]"
  "versionsForPath insertionSort exSchemas ''/v3'' = [exV3]"
  by (simp_all add: versionsForPath_def exSchemas_def exV1_def exV3_def exCluster_def
      HasPrefix_def insertionSort_def)

lemma exSchemas_v3_parse:
  "parseVersionAndSubContext insertionSort exSchemas ''/v3/volumes'' =
     Inr (Some exV3, [], [''volumes''], None)"
  "parseVersionAndSubContext insertionSort exSchemas ''/v3'' = Inr (Some exV3, [], [], None)"
proof -
  have "remainingAfter exV3 ''/v3/volumes'' = Inr [''volumes'']"
    by (simp add: remainingAfter_def trimmed_def HasSuffix_def sliceFrom_def exV3_def)
  from parse_plain [OF exSchemas_v3_versions(1) this]
  show "parseVersionAndSubContext insertionSort exSchemas ''/v3/volumes'' =
     Inr (Some exV3, [], [''volumes''], None)" by simp
  have "remainingAfter exV3 ''/v3'' = Inr []"
    by (simp add: remainingAfter_def trimmed_def HasSuffix_def sliceFrom_def exV3_def)
  from parse_plain [OF exSchemas_v3_versions(2) this]
  show "parseVersionAndSubContext insertionSort exSchemas ''/v3'' = Inr (Some exV3, [], [], None)"
    by simp
qed

lemma registeredVersion_exV3: "registeredVersion exSchemas ''/v3'' = Some exV3"
  by (simp add: registeredVersion_def exSchemas_def exV1_def exV3_def exCluster_def)

theorem Parse_schema_not_found_witness:
  "returnedError
     (Parse exEnv (exRequest ''GET'' ''/v3/volumes'' Map.empty) exSchemas
        (DefaultURLParser insertionSort) (DefaultResolver exMeta exBuiltinSchema)) =
     Some (APIError NotFound ''failed to find schema volumes'') \<and>
   map_option ctx_Method (returnedContext
     (Parse exEnv (exRequest ''GET'' ''/v3/volumes'' Map.empty) exSchemas
        (DefaultURLParser insertionSort) (DefaultResolver exMeta exBuiltinSchema))) =
     Some ''GET'' \<and>
   map_option ctx_Type (returnedContext
     (Parse exEnv (exRequest ''GET'' ''/v3/volumes'' Map.empty) exSchemas
        (DefaultURLParser insertionSort) (DefaultResolver exMeta exBuiltinSchema))) =
     Some ''apiRoot'' \<and>
   map_option ctx_ID (returnedContext
     (Parse exEnv (exRequest ''GET'' ''/v3/volumes'' Map.empty) exSchemas
        (DefaultURLParser insertionSort) (DefaultResolver exMeta exBuiltinSchema))) =
     Some ''/v3''"
proof -
  let ?req = "exRequest ''GET'' ''/v3/volumes'' Map.empty"
  let ?builder = "\<lparr>builder_apiVersion = exV3, builder_subContext = []\<rparr>"
  define parsedURL where "parsedURL =
     ParsedURL_zero\<lparr>parsed_Version := version_Path exV3,
                          parsed_SubContext := None,
                          parsed_SubContextPrefix := [],
                          parsed_Action := fst (parseAction (req_URL ?req)),
                          parsed_Method := snd (parseAction (req_URL ?req)),
                          parsed_Query := url_Query (req_URL ?req),
                          parsed_Type := safeIndex [''volumes''] 0,
                          parsed_ID := safeIndex [''volumes''] 1,
                          parsed_Link := safeIndex [''volumes''] 2\<rparr>"
  have ty: "parsed_Type parsedURL = ''volumes''" and ver: "parsed_Version parsedURL = ''/v3''"
    by (simp_all add: parsedURL_def safeIndex_def exV3_def)
  have "parseVersionAndSubContext insertionSort exSchemas (normalize (url_Path (req_URL ?req))) =
     Inr (Some exV3, [], [''volumes''], None)"
    by (simp add: exRequest_def normalize_def exSchemas_v3_parse)
  from DefaultURLParser_found [OF this]
  have p: "DefaultURLParser insertionSort exSchemas (req_URL ?req) = Inr (parsedURL, None)"
    by (simp add: parsedURL_def)
  have v: "registeredVersion exSchemas (parsed_Version parsedURL) = Some exV3"
    by (simp add: ver registeredVersion_exV3)
  have b: "urlbuilder_New exEnv ?req exV3 exSchemas = (Some ?builder, None)"
    by (simp add: exEnv_def exBuilder_def)
  let ?c = "resolverInput exEnv ?req exSchemas parsedURL ?builder"
  have look: "Schema exSchemas (Some exV3) ''volumes'' = None"
    by (simp add: exSchemas_def exLookup_def)
  have r: "DefaultResolver exMeta exBuiltinSchema (parsed_Type parsedURL) ?c = (?c, None)"
    by (simp add: DefaultResolver_def resolverInput_fields ty v look exBuiltinSchema_def Let_def)
  from Parse_schema_not_found [where urlParser = "DefaultURLParser insertionSort"
      and schemas = exSchemas and resolverFunc = "DefaultResolver exMeta exBuiltinSchema",
      OF p v b r]
  show ?thesis
    by (auto simp: resolverInput_fields v ty returnedError_def returnedContext_def exV3_def)
qed


text \<open>
  The claim as stated fails: \<open>Parse\<close> reads the type and the version of the context
  after the resolver has run on it. For \<open>GET /v3/volumes\<close>, a resolver that binds no
  schema, raises no error and clears the type makes \<open>Parse\<close> return no error, although
  the type segment \<open>volumes\<close> is not empty.
\<close>

theorem Parse_schema_not_found_counterexample:
  "DefaultURLParser insertionSort exSchemas
     (req_URL (exRequest ''GET'' ''/v3/volumes'' Map.empty)) = Inr (exVolumesParsed, None) \<and>
   parsed_Type exVolumesParsed = ''volumes'' \<and>
   registeredVersion exSchemas (parsed_Version exVolumesParsed) = Some exV3 \<and>
   urlbuilder_New exEnv (exRequest ''GET'' ''/v3/volumes'' Map.empty) exV3 exSchemas =
     (Some exV3Builder, None) \<and>
   ctx_Schema (fst (clearingResolver ''volumes''
     (resolverInput exEnv (exRequest ''GET'' ''/v3/volumes'' Map.empty) exSchemas
        exVolumesParsed exV3Builder))) = None \<and>
   snd (clearingResolver ''volumes''
     (resolverInput exEnv (exRequest ''GET'' ''/v3/volumes'' Map.empty) exSchemas
        exVolumesParsed exV3Builder)) = None \<and>
   returnedError
     (Parse exEnv (exRequest ''GET'' ''/v3/volumes'' Map.empty) exSchemas
        (DefaultURLParser insertionSort) clearingResolver) = None \<and>
   map_option ctx_Type (returnedContext
     (Parse exEnv (exRequest ''GET'' ''/v3/volumes'' Map.empty) exSchemas
        (DefaultURLParser insertionSort) clearingResolver)) = Some ''apiRoot''"
proof -
  let ?req = "exRequest ''GET'' ''/v3/volumes'' Map.empty"
  have ty: "parsed_Type exVolumesParsed = ''volumes''"
    and ver: "parsed_Version exVolumesParsed = ''/v3''"
    by (simp_all add: exVolumesParsed_def)
  have "parseVersionAndSubContext insertionSort exSchemas (normalize (url_Path (req_URL ?req))) =
     Inr (Some exV3, [], [''volumes''], None)"
    by (simp add: exRequest_def normalize_def exSchemas_v3_parse)
  from DefaultURLParser_found [OF this]
  have p: "DefaultURLParser insertionSort exSchemas (req_URL ?req) = Inr (exVolumesParsed, None)"
    by (simp add: exVolumesParsed_def ParsedURL_zero_def parseAction_def Get_def exRequest_def
        safeIndex_def exV3_def)
  have v: "registeredVersion exSchemas (parsed_Version exVolumesParsed) = Some exV3"
    by (simp add: ver registeredVersion_exV3)
  have b: "urlbuilder_New exEnv ?req exV3 exSchemas = (Some exV3Builder, None)"
    by (simp add: exEnv_def exBuilder_def exV3Builder_def)
  let ?c = "resolverInput exEnv ?req exSchemas exVolumesParsed exV3Builder"
  have r: "clearingResolver (parsed_Type exVolumesParsed) ?c = (?c\<lparr>ctx_Type := []\<rparr>, None)"
    by (simp add: clearingResolver_def)
  have "Parse exEnv ?req exSchemas (DefaultURLParser insertionSort) clearingResolver =
      Inr (?c\<lparr>ctx_Type := [],
               ctx_Method := ''GET'', ctx_Type := ''apiRoot'',
               ctx_Schema := Schema exSchemas (Some (builtin_Version exEnv)) ''apiRoot'',
               ctx_ID := version_Path exV3\<rparr>, None)"
    unfolding Parse_resolver [where urlParser = "DefaultURLParser insertionSort"
      and schemas = exSchemas and resolverFunc = clearingResolver, OF p v b r]
    by (simp add: resolverInput_fields v)
  with p ty v b show ?thesis
    by (simp add: returnedError_def returnedContext_def clearingResolver_def
        resolverInput_fields)
qed

text \<open>
  Claim C7, amended. The path of the request matches a registered version, the query
  parameter \<open>action\<close> is \<open>remove\<close>, the default URL parser returns, the URL builder is
  made, and the resolver does nothing to the context but bind a schema or not. Then the
  URL parser reports the method \<open>DELETE\<close> and an empty action, whatever the HTTP method
  and the \<open>_method\<close> parameter; the action of the returned context is empty; and its
  method is \<open>DELETE\<close>, except that it is \<open>GET\<close> when the resolver raises no error and
  binds no schema, since \<open>Parse\<close> then falls back to \<open>apiRoot\<close>.
\<close>

theorem Parse_action_remove:
  assumes "versionsForPath sortSlice schemas (normalize (url_Path (req_URL req))) \<noteq> []"
    and "Get (url_Query (req_URL req)) ''action'' = ''remove''"
    and "DefaultURLParser sortSlice schemas (req_URL req) = Inr (parsedURL, perr)"
    and "registeredVersion schemas (parsed_Version parsedURL) = Some version"
    and "urlbuilder_New env req version schemas = (Some builder, None)"
    and "resolverFunc (parsed_Type parsedURL) (resolverInput env req schemas parsedURL builder) =
           ((resolverInput env req schemas parsedURL builder)\<lparr>ctx_Schema := bound\<rparr>, rerr)"
  shows "parsed_Method parsedURL = ''DELETE'' \<and> parsed_Action parsedURL = [] \<and>
     (\<exists>result err.
        Parse env req schemas (DefaultURLParser sortSlice) resolverFunc = Inr (result, err) \<and>
        ctx_Action result = [] \<and>
        ctx_Method result = (if rerr = None \<and> bound = None then ''GET'' else ''DELETE''))"
proof -
  from DefaultURLParser_remove [OF assms(1,2,3)]
  have m: "parsed_Method parsedURL = ''DELETE''" and a: "parsed_Action parsedURL = []"
    and e: "perr = None" by simp_all
  note p = assms(3) [unfolded e]
  have "\<exists>result err.
        Parse env req schemas (DefaultURLParser sortSlice) resolverFunc = Inr (result, err) \<and>
        ctx_Action result = [] \<and>
        ctx_Method result = (if rerr = None \<and> bound = None then ''GET'' else ''DELETE'')"
    unfolding Parse_resolver [where urlParser = "DefaultURLParser sortSlice"
      and schemas = schemas and resolverFunc = resolverFunc, OF p assms(4,5,6)]
    using assms(4) by (cases bound) (auto simp: resolverInput_fields m a)
  with m a show ?thesis by blast
qed

lemma exSchemas_nodes_parse:
  "parseVersionAndSubContext insertionSort exSchemas ''/v3/nodes/n-1'' =
     Inr (Some exV3, [], [''nodes'', ''n-1''], None)"
proof -
  have vs: "versionsForPath insertionSort exSchemas ''/v3/nodes/n-1'' = [exV3]"
    by (simp add: versionsForPath_def exSchemas_def exV1_def exV3_def exCluster_def
      HasPrefix_def insertionSort_def)
  have "remainingAfter exV3 ''/v3/nodes/n-1'' = Inr [''nodes'', ''n-1'']"
    by (simp add: remainingAfter_def trimmed_def HasSuffix_def sliceFrom_def exV3_def)
  from parse_plain [OF vs this] show ?thesis by simp
qed

theorem Parse_action_remove_witness:
  "Get (url_Query (req_URL (exRequest ''POST'' ''/v3/nodes/n-1'' exRemoveQuery))) ''action'' =
     ''remove'' \<and>
   parseMethod (exRequest ''POST'' ''/v3/nodes/n-1'' exRemoveQuery) = ''PUT'' \<and>
   map_option ctx_Method (returnedContext
     (Parse exEnv (exRequest ''POST'' ''/v3/nodes/n-1'' exRemoveQuery) exSchemas
        (DefaultURLParser insertionSort) (DefaultResolver exMeta exBuiltinSchema))) =
     Some ''DELETE'' \<and>
   map_option ctx_Action (returnedContext
     (Parse exEnv (exRequest ''POST'' ''/v3/nodes/n-1'' exRemoveQuery) exSchemas
        (DefaultURLParser insertionSort) (DefaultResolver exMeta exBuiltinSchema))) =
     Some []"
proof -
  let ?req = "exRequest ''POST'' ''/v3/nodes/n-1'' exRemoveQuery"
  let ?builder = "\<lparr>builder_apiVersion = exV3, builder_subContext = []\<rparr>"
  let ?node = "\<lparr>schema_ID = ''node'', schema_PluralName = ''nodes''\<rparr>"
  define parsedURL where "parsedURL =
     ParsedURL_zero\<lparr>parsed_Version := version_Path exV3,
                          parsed_SubContext := None,
                          parsed_SubContextPrefix := [],
                          parsed_Action := fst (parseAction (req_URL ?req)),
                          parsed_Method := snd (parseAction (req_URL ?req)),
                          parsed_Query := url_Query (req_URL ?req),
                          parsed_Type := safeIndex [''nodes'', ''n-1''] 0,
                          parsed_ID := safeIndex [''nodes'', ''n-1''] 1,
                          parsed_Link := safeIndex [''nodes'', ''n-1''] 2\<rparr>"
  have ty: "parsed_Type parsedURL = ''nodes''" and ver: "parsed_Version parsedURL = ''/v3''"
    by (simp_all add: parsedURL_def safeIndex_def exV3_def)
  have n: "normalize (url_Path (req_URL ?req)) = ''/v3/nodes/n-1''"
    by (simp add: exRequest_def normalize_def)
  have vs: "versionsForPath insertionSort exSchemas (normalize (url_Path (req_URL ?req))) \<noteq> []"
    unfolding n
    by (simp add: versionsForPath_def exSchemas_def exV1_def exV3_def exCluster_def
      HasPrefix_def insertionSort_def)
  have act: "Get (url_Query (req_URL ?req)) ''action'' = ''remove''"
    by (simp add: exRequest_def exRemoveQuery_def Get_def)
  have pm: "parseMethod ?req = ''PUT''"
    by (simp add: parseMethod_def exRequest_def exRemoveQuery_def Get_def)
  have "parseVersionAndSubContext insertionSort exSchemas (normalize (url_Path (req_URL ?req))) =
     Inr (Some exV3, [], [''nodes'', ''n-1''], None)"
    unfolding n by (rule exSchemas_nodes_parse)
  from DefaultURLParser_found [OF this]
  have p: "DefaultURLParser insertionSort exSchemas (req_URL ?req) = Inr (parsedURL, None)"
    by (simp add: parsedURL_def)
  have v: "registeredVersion exSchemas (parsed_Version parsedURL) = Some exV3"
    by (simp add: ver registeredVersion_exV3)
  have b: "urlbuilder_New exEnv ?req exV3 exSchemas = (Some ?builder, None)"
    by (simp add: exEnv_def exBuilder_def)
  let ?c = "resolverInput exEnv ?req exSchemas parsedURL ?builder"
  have look: "Schema exSchemas (Some exV3) ''nodes'' = Some ?node"
    by (simp add: exSchemas_def exLookup_def)
  have r: "DefaultResolver exMeta exBuiltinSchema (parsed_Type parsedURL) ?c =
      (?c\<lparr>ctx_Schema := Some ?node\<rparr>, None)"
    by (simp add: DefaultResolver_def resolverInput_fields ty v look Let_def)
  from Parse_action_remove [where resolverFunc = "DefaultResolver exMeta exBuiltinSchema",
      OF vs act p v b r] act pm
  show ?thesis
    by (auto simp: returnedContext_def)
qed

text \<open>
  The claim as stated fails: \<open>POST /v3?action=remove&_method=PUT\<close> matches the version
  \<open>/v3\<close> and names no type, no schema is bound, and the returned context has the method
  \<open>GET\<close>.
\<close>

theorem Parse_action_remove_counterexample:
  "versionsForPath insertionSort exSchemas
     (normalize (url_Path (req_URL (exRequest ''POST'' ''/v3'' exRemoveQuery)))) = [exV3] \<and>
   Get (url_Query (req_URL (exRequest ''POST'' ''/v3'' exRemoveQuery))) ''action'' = ''remove'' \<and>
   returnedError
     (Parse exEnv (exRequest ''POST'' ''/v3'' exRemoveQuery) exSchemas
        (DefaultURLParser insertionSort) (DefaultResolver exMeta exBuiltinSchema)) = None \<and>
   map_option ctx_Method (returnedContext
     (Parse exEnv (exRequest ''POST'' ''/v3'' exRemoveQuery) exSchemas
        (DefaultURLParser insertionSort) (DefaultResolver exMeta exBuiltinSchema))) =
     Some ''GET''"
proof -
  let ?req = "exRequest ''POST'' ''/v3'' exRemoveQuery"
  let ?builder = "\<lparr>builder_apiVersion = exV3, builder_subContext = []\<rparr>"
  define parsedURL where "parsedURL =
     ParsedURL_zero\<lparr>parsed_Version := version_Path exV3,
                          parsed_SubContext := None,
                          parsed_SubContextPrefix := [],
                          parsed_Action := fst (parseAction (req_URL ?req)),
                          parsed_Method := snd (parseAction (req_URL ?req)),
                          parsed_Query := url_Query (req_URL ?req),
                          parsed_Type := safeIndex [] 0,
                          parsed_ID := safeIndex [] 1,
                          parsed_Link := safeIndex [] 2\<rparr>"
  have ty: "parsed_Type parsedURL = []" and ver: "parsed_Version parsedURL = ''/v3''"
    by (simp_all add: parsedURL_def safeIndex_def exV3_def)
  have n: "normalize (url_Path (req_URL ?req)) = ''/v3''"
    by (simp add: exRequest_def normalize_def)
  have act: "Get (url_Query (req_URL ?req)) ''action'' = ''remove''"
    by (simp add: exRequest_def exRemoveQuery_def Get_def)
  have "parseVersionAndSubContext insertionSort exSchemas (normalize (url_Path (req_URL ?req))) =
     Inr (Some exV3, [], [], None)"
    unfolding n by (rule exSchemas_v3_parse)
  from DefaultURLParser_found [OF this]
  have p: "DefaultURLParser insertionSort exSchemas (req_URL ?req) = Inr (parsedURL, None)"
    by (simp add: parsedURL_def)
  have v: "registeredVersion exSchemas (parsed_Version parsedURL) = Some exV3"
    by (simp add: ver registeredVersion_exV3)
  have b: "urlbuilder_New exEnv ?req exV3 exSchemas = (Some ?builder, None)"
    by (simp add: exEnv_def exBuilder_def)
  let ?c = "resolverInput exEnv ?req exSchemas parsedURL ?builder"
  have r: "DefaultResolver exMeta exBuiltinSchema (parsed_Type parsedURL) ?c = (?c, None)"
    by (simp add: DefaultResolver_def ty)
  have "Parse exEnv ?req exSchemas (DefaultURLParser insertionSort)
          (DefaultResolver exMeta exBuiltinSchema) =
        Inr (?c\<lparr>ctx_Method := ''GET'', ctx_Type := ''apiRoot'',
                 ctx_Schema := Schema (ctx_Schemas ?c) (Some (builtin_Version exEnv)) ''apiRoot'',
                 ctx_ID := version_Path exV3\<rparr>, None)"
    unfolding Parse_resolver [where urlParser = "DefaultURLParser insertionSort"
      and schemas = exSchemas and resolverFunc = "DefaultResolver exMeta exBuiltinSchema",
      OF p v b r]
    by (simp add: resolverInput_fields v ty)
  with act exSchemas_v3_versions(2) n show ?thesis
    by (simp add: returnedError_def returnedContext_def)
qed

end
